theory Spec2Isabelle
  imports Main "HOL-Library.Log_Nat" "HOL-Library.Sublist"
begin

section \<open>Python values\<close>

subsection \<open>Floats\<close>

text \<open>
  A Python float is an IEEE-754 binary64 number. A finite float is modelled by the
  rational number it denotes, and every arithmetic operation rounds the exact result
  to the nearest representable number, ties to even (53 significant bits, smallest
  exponent \<open>-1074\<close>). Overflow to infinity is not modelled: the floats of this program
  are scores between 0 and 100 and temperatures that are only ever halved.
\<close>

definition pow2 :: "int \<Rightarrow> rat" where
  "pow2 e = (if 0 \<le> e then 2 ^ nat e else 1 / 2 ^ nat (- e))"

definition round_half_even :: "rat \<Rightarrow> int" where
  "round_half_even x =
     (let f = \<lfloor>x\<rfloor>; d = x - of_int f
      in if d < 1 / 2 then f
         else if 1 / 2 < d then f + 1
         else if even f then f else f + 1)"

definition ilog2 :: "rat \<Rightarrow> int" where
  \<comment> \<open>\<open>\<lfloor>log\<^sub>2 a\<rfloor>\<close> of a positive rational\<close>
  "ilog2 a =
     (let (p, q) = quotient_of a; k = bitlen p - bitlen q
      in if pow2 k \<le> a then k else k - 1)"

definition fl :: "rat \<Rightarrow> rat" where
  "fl x =
     (if x = 0 then 0
      else let a = \<bar>x\<bar>;
               e = max (ilog2 a - 52) (- 1074);
               n = round_half_even (a / pow2 e)
           in sgn x * of_int n * pow2 e)"

definition fadd :: "rat \<Rightarrow> rat \<Rightarrow> rat" where
  "fadd a b = fl (a + b)"

definition fsub :: "rat \<Rightarrow> rat \<Rightarrow> rat" where
  "fsub a b = fl (a - b)"

definition fmul :: "rat \<Rightarrow> rat \<Rightarrow> rat" where
  "fmul a b = fl (a * b)"

definition fdiv :: "rat \<Rightarrow> rat \<Rightarrow> rat" where
  "fdiv a b = fl (a / b)"

subsection \<open>Strings\<close>

text \<open>
  A Python \<open>str\<close> is a sequence of Unicode code points, modelled as a list of
  integers. \<open>py\<close> reads an ASCII literal. White space is the set of \<open>str.isspace\<close>.
  \<open>lower\<close>, \<open>isupper\<close>, \<open>islower\<close> and \<open>isdigit\<close> are the case mapping and the
  classes of letters and digits of the ASCII range: a code point outside it is left
  unchanged and belongs to no class. On ASCII text they are \<open>str.lower\<close>,
  \<open>str.isupper\<close>, \<open>str.islower\<close> and \<open>str.isdigit\<close>.
\<close>

type_synonym str = "int list"

definition py :: "string \<Rightarrow> str" where
  "py = map of_char"

definition isspace :: "int \<Rightarrow> bool" where
  "isspace c \<longleftrightarrow>
     (9 \<le> c \<and> c \<le> 13) \<or> (28 \<le> c \<and> c \<le> 32) \<or> c = 133 \<or> c = 160 \<or> c = 5760 \<or>
     (8192 \<le> c \<and> c \<le> 8202) \<or> c = 8232 \<or> c = 8233 \<or> c = 8239 \<or> c = 8287 \<or> c = 12288"

definition isupper :: "int \<Rightarrow> bool" where
  "isupper c \<longleftrightarrow> 65 \<le> c \<and> c \<le> 90"

definition islower :: "int \<Rightarrow> bool" where
  "islower c \<longleftrightarrow> 97 \<le> c \<and> c \<le> 122"

definition isdigit :: "int \<Rightarrow> bool" where
  "isdigit c \<longleftrightarrow> 48 \<le> c \<and> c \<le> 57"

definition lower_cp :: "int \<Rightarrow> int" where
  "lower_cp c = (if isupper c then c + 32 else c)"

definition lower :: "str \<Rightarrow> str" where
  "lower s = map lower_cp s"

definition isword :: "int \<Rightarrow> bool" where
  "isword c \<longleftrightarrow> isupper c \<or> islower c \<or> isdigit c \<or> c = 95"

text \<open>
  On other text \<open>str.lower\<close>, \<open>str.isupper\<close> and the word characters \<open>\w\<close> of \<open>re\<close>
  are given by the Unicode character database of the interpreter, which is not part of
  the program (\<open>str.lower\<close> is not even a mapping of single characters: a capital
  sigma is lower-cased according to its neighbours, and U+0130 becomes two
  characters). Contact discovery applies them to names, titles and snippets of any
  origin, so its functions take them as a parameter \<open>u\<close>: \<open>str_lower u s\<close> is
  \<open>s.lower()\<close>, \<open>chr_isupper u c\<close> is \<open>isupper()\<close> of the one-character string \<open>c\<close>, and
  \<open>chr_isword u c\<close> tells whether \<open>\w\<close> matches \<open>c\<close>. \<open>ascii_data\<close> is their restriction
  to the ASCII range, with which the examples on ASCII text are evaluated.
\<close>

record unicode_data =
  str_lower :: "str \<Rightarrow> str"
  chr_isupper :: "int \<Rightarrow> bool"
  chr_isword :: "int \<Rightarrow> bool"

definition ascii_data :: unicode_data where
  "ascii_data = \<lparr> str_lower = lower, chr_isupper = isupper, chr_isword = isword \<rparr>"

definition lstrip :: "str \<Rightarrow> str" where
  "lstrip s = dropWhile isspace s"

definition rstrip :: "str \<Rightarrow> str" where
  "rstrip s = rev (dropWhile isspace (rev s))"

definition strip :: "str \<Rightarrow> str" where
  "strip s = rstrip (lstrip s)"

definition startswith :: "str \<Rightarrow> str \<Rightarrow> bool" where
  "startswith s pre \<longleftrightarrow> take (length pre) s = pre"

text \<open>\<open>str_in sub s\<close> is Python's \<open>sub in s\<close>.\<close>

fun str_in :: "str \<Rightarrow> str \<Rightarrow> bool" where
  "str_in sub [] = (sub = [])"
| "str_in sub (c # cs) = (startswith (c # cs) sub \<or> str_in sub cs)"

text \<open>The truth value of an \<open>Optional[str]\<close>: \<open>None\<close> and the empty string are false.\<close>

definition truthy :: "str option \<Rightarrow> bool" where
  "truthy v = (case v of None \<Rightarrow> False | Some s \<Rightarrow> s \<noteq> [])"

definition join :: "str \<Rightarrow> str list \<Rightarrow> str" where
  "join sep xs = (case xs of [] \<Rightarrow> [] | x # rest \<Rightarrow> x @ concat (map (\<lambda>y. sep @ y) rest))"

definition slice :: "nat \<Rightarrow> nat \<Rightarrow> 'a list \<Rightarrow> 'a list" where
  \<comment> \<open>\<open>xs[a:b]\<close> for indices that are not negative\<close>
  "slice a b xs = take (b - a) (drop a xs)"

text \<open>
  \<open>split_sep sep s\<close> is \<open>s.split(sep)\<close> for a non-empty separator: the pieces between
  the occurrences of \<open>sep\<close>, found from left to right without overlap.
\<close>

function split_aux :: "str \<Rightarrow> str \<Rightarrow> str \<Rightarrow> str list" where
  "split_aux sep cur [] = [cur]"
| "split_aux sep cur (c # cs) =
     (if sep \<noteq> [] \<and> startswith (c # cs) sep
      then cur # split_aux sep [] (drop (length sep) (c # cs))
      else split_aux sep (cur @ [c]) cs)"
  by pat_completeness auto
termination
  by (relation "measure (\<lambda>(sep, cur, s). length s)") auto

definition split_sep :: "str \<Rightarrow> str \<Rightarrow> str list" where
  "split_sep sep s = split_aux sep [] s"

text \<open>\<open>words s\<close> is \<open>s.split()\<close>: the maximal runs of characters that are not white space.\<close>

fun words_aux :: "str \<Rightarrow> str \<Rightarrow> str list" where
  "words_aux cur [] = (if cur = [] then [] else [cur])"
| "words_aux cur (c # cs) =
     (if isspace c then (if cur = [] then words_aux [] cs else cur # words_aux [] cs)
      else words_aux (cur @ [c]) cs)"

definition words :: "str \<Rightarrow> str list" where
  "words s = words_aux [] s"

datatype py_error = IndexError | ValueError str | TypeError str | Exception str

text \<open>\<open>str(e)\<close>: the message of an exception.\<close>

fun str_of_error :: "py_error \<Rightarrow> str" where
  "str_of_error IndexError = py ''string index out of range''"
| "str_of_error (ValueError msg) = msg"
| "str_of_error (TypeError msg) = msg"
| "str_of_error (Exception msg) = msg"

section \<open>Regular expressions (the part of \<open>re\<close> that the patterns use)\<close>

text \<open>
  A pattern is a term of \<open>regex\<close>. A cursor is a position in the subject: the character
  before it, if any, and the text after it. \<open>ends f r c\<close> lists the cursors at which a
  match of \<open>r\<close> that starts at \<open>c\<close> can end, in the order in which the backtracking
  matcher of \<open>re\<close> tries them (the first alternative first, a greedy repetition with
  as many rounds as possible first), so that the head of the list is the match that
  \<open>re\<close> reports. A round of a repetition that consumes nothing is not repeated.
  A class is a list of ranges of code points; \<open>\s\<close> is the white space of
  \<open>str.isspace\<close>, while \<open>\d\<close> and the letters that \<open>IGNORECASE\<close> identifies are those
  of the ASCII range. \<open>WordB w\<close> is \<open>\b\<close>, the boundary between a character of the
  class \<open>w\<close> of word characters and a character outside it or an end of the text.
\<close>

datatype regex =
    Eps
  | Lit str
  | Cset "(int \<times> int) list"
  | Bol
  | WordB "int \<Rightarrow> bool"
  | Seq regex regex
  | Alt regex regex
  | Star regex

datatype flags = Flags (ignorecase: bool) (multiline: bool)

type_synonym cursor = "int option \<times> str"

definition upper_cp :: "int \<Rightarrow> int" where
  "upper_cp c = (if islower c then c - 32 else c)"

definition in_ranges :: "(int \<times> int) list \<Rightarrow> int \<Rightarrow> bool" where
  "in_ranges rs c = list_ex (\<lambda>(lo, hi). lo \<le> c \<and> c \<le> hi) rs"

definition cset_match :: "flags \<Rightarrow> (int \<times> int) list \<Rightarrow> int \<Rightarrow> bool" where
  "cset_match f rs c \<longleftrightarrow>
     in_ranges rs c \<or> (ignorecase f \<and> (in_ranges rs (lower_cp c) \<or> in_ranges rs (upper_cp c)))"

definition chr_match :: "flags \<Rightarrow> int \<Rightarrow> int \<Rightarrow> bool" where
  "chr_match f p c \<longleftrightarrow> p = c \<or> (ignorecase f \<and> lower_cp p = lower_cp c)"

fun lit_ends :: "flags \<Rightarrow> str \<Rightarrow> cursor \<Rightarrow> cursor list" where
  "lit_ends f [] c = [c]"
| "lit_ends f (p # ps) (prev, []) = []"
| "lit_ends f (p # ps) (prev, x # xs) =
     (if chr_match f p x then lit_ends f ps (Some x, xs) else [])"

definition at_word_boundary :: "(int \<Rightarrow> bool) \<Rightarrow> cursor \<Rightarrow> bool" where
  "at_word_boundary w c =
     ((case fst c of None \<Rightarrow> False | Some p \<Rightarrow> w p) \<noteq>
      (case snd c of [] \<Rightarrow> False | x # _ \<Rightarrow> w x))"

definition at_line_start :: "flags \<Rightarrow> cursor \<Rightarrow> bool" where
  "at_line_start f c =
     (case fst c of None \<Rightarrow> True | Some p \<Rightarrow> multiline f \<and> p = 10)"

fun star_ends :: "(cursor \<Rightarrow> cursor list) \<Rightarrow> nat \<Rightarrow> cursor \<Rightarrow> cursor list" where
  "star_ends step 0 c = [c]"
| "star_ends step (Suc n) c =
     concat (map (star_ends step n)
        (filter (\<lambda>c'. length (snd c') < length (snd c)) (step c))) @ [c]"

fun ends :: "flags \<Rightarrow> regex \<Rightarrow> cursor \<Rightarrow> cursor list" where
  "ends f Eps c = [c]"
| "ends f (Lit ps) c = lit_ends f ps c"
| "ends f (Cset rs) c =
     (case snd c of [] \<Rightarrow> [] | x # xs \<Rightarrow> if cset_match f rs x then [(Some x, xs)] else [])"
| "ends f Bol c = (if at_line_start f c then [c] else [])"
| "ends f (WordB w) c = (if at_word_boundary w c then [c] else [])"
| "ends f (Seq r1 r2) c = concat (map (\<lambda>c'. ends f r2 c') (ends f r1 c))"
| "ends f (Alt r1 r2) c = ends f r1 c @ ends f r2 c"
| "ends f (Star r) c = star_ends (\<lambda>c'. ends f r c') (length (snd c)) c"

definition Plus :: "regex \<Rightarrow> regex" where
  "Plus r = Seq r (Star r)"

definition Opt :: "regex \<Rightarrow> regex" where
  "Opt r = Alt r Eps"

fun alts :: "regex list \<Rightarrow> regex" where
  "alts [] = Cset []"
| "alts [r] = r"
| "alts (r # rs) = Alt r (alts rs)"

fun seqs :: "regex list \<Rightarrow> regex" where
  "seqs [] = Eps"
| "seqs [r] = r"
| "seqs (r # rs) = Seq r (seqs rs)"

definition words_of :: "string list \<Rightarrow> regex" where
  \<comment> \<open>\<open>(?:w1|w2|...)\<close>\<close>
  "words_of ws = alts (map (\<lambda>w. Lit (py w)) ws)"

definition space_ranges :: "(int \<times> int) list" where
  "space_ranges = [(9, 13), (28, 32), (133, 133), (160, 160), (5760, 5760), (8192, 8202),
     (8232, 8233), (8239, 8239), (8287, 8287), (12288, 12288)]"

definition Space :: regex where
  "Space = Cset space_ranges"

definition Digit :: regex where
  "Digit = Cset [(48, 57)]"

text \<open>
  \<open>re.search\<close>: the first position, from the left, at which a match starts; the result
  is the matched text (group 0). \<open>re.findall\<close> for a pattern without groups: the texts
  of the successive matches, each search resuming where the last match ended (one
  character further after an empty match).
\<close>

fun search_from :: "flags \<Rightarrow> regex \<Rightarrow> int option \<Rightarrow> str \<Rightarrow> str option" where
  "search_from f r prev [] =
     (case ends f r (prev, []) of [] \<Rightarrow> None | c' # _ \<Rightarrow> Some [])"
| "search_from f r prev (x # xs) =
     (case ends f r (prev, x # xs) of
        [] \<Rightarrow> search_from f r (Some x) xs
      | c' # _ \<Rightarrow> Some (take (length (x # xs) - length (snd c')) (x # xs)))"

definition re_search :: "flags \<Rightarrow> regex \<Rightarrow> str \<Rightarrow> str option" where
  "re_search f r s = search_from f r None s"

function findall_from :: "flags \<Rightarrow> regex \<Rightarrow> int option \<Rightarrow> str \<Rightarrow> str list" where
  "findall_from f r prev [] =
     (case ends f r (prev, []) of [] \<Rightarrow> [] | c' # _ \<Rightarrow> [[]])"
| "findall_from f r prev (x # xs) =
     (case ends f r (prev, x # xs) of
        [] \<Rightarrow> findall_from f r (Some x) xs
      | c' # _ \<Rightarrow>
          if length (snd c') < length (x # xs)
          then take (length (x # xs) - length (snd c')) (x # xs) #
               findall_from f r (fst c') (snd c')
          else [] # findall_from f r (Some x) xs)"
  by pat_completeness auto
termination
  by (relation "measure (\<lambda>(f, r, prev, s). length s)") auto

definition re_findall :: "flags \<Rightarrow> regex \<Rightarrow> str \<Rightarrow> str list" where
  "re_findall f r s = findall_from f r None s"

section \<open>Contact discovery (core/contact_finder.py)\<close>

text \<open>
  The search provider's result is a dictionary of strings; a \<open>ContactCandidate\<close> is the
  pydantic model of core/models.py (fields prefixed \<open>cc_\<close>; \<open>role\<close>, \<open>email\<close> and
  \<open>linkedin\<close> default to \<open>None\<close>).
\<close>

type_synonym search_result = "string \<rightharpoonup> str"

definition dict_get :: "search_result \<Rightarrow> string \<Rightarrow> str \<Rightarrow> str" where
  \<comment> \<open>\<open>d.get(key, default)\<close>\<close>
  "dict_get d k dflt = (case d k of None \<Rightarrow> dflt | Some v \<Rightarrow> v)"

record contact_candidate =
  cc_name :: str
  cc_role :: "str option"
  cc_email :: "str option"
  cc_email_confidence :: str
  cc_linkedin :: "str option"
  cc_source :: str
  cc_confidence_score :: rat

definition extract_name_from_title :: "unicode_data \<Rightarrow> str \<Rightarrow> str option" where
  "extract_name_from_title u title =
     (let linkedin_name =
            (if str_in (py ''|'') title \<and> str_in (py ''LinkedIn'') title
             then (let parts = strip (hd (split_sep (py ''|'') title))
                   in if str_in (py ''-'') parts
                      then Some (strip (hd (split_sep (py ''-'') parts)))
                      else None)
             else None)
      in case linkedin_name of
           Some n \<Rightarrow> Some n
         | None \<Rightarrow>
             (case words title of
                w0 # w1 # _ \<Rightarrow>
                  if chr_isupper u (hd w0) \<and> chr_isupper u (hd w1)
                  then Some (w0 @ py '' '' @ w1) else None
              | _ \<Rightarrow> None))"

definition email_pattern :: "(int \<Rightarrow> bool) \<Rightarrow> regex" where
  \<comment> \<open>\<open>\b[A-Za-z0-9._%+-]+@[A-Za-z0-9.-]+\.[A-Z|a-z]{2,}\b\<close>, with \<open>w\<close> the class \<open>\w\<close>\<close>
  "email_pattern w =
     seqs [WordB w,
           Plus (Cset [(65, 90), (97, 122), (48, 57), (46, 46), (95, 95), (37, 37), (43, 43), (45, 45)]),
           Lit (py ''@''),
           Plus (Cset [(65, 90), (97, 122), (48, 57), (46, 46), (45, 45)]),
           Lit (py ''.''),
           Cset [(65, 90), (124, 124), (97, 122)],
           Plus (Cset [(65, 90), (124, 124), (97, 122)]),
           WordB w]"

definition extract_email :: "unicode_data \<Rightarrow> str \<Rightarrow> str option" where
  "extract_email u text =
     (let matches = re_findall (Flags False False) (email_pattern (chr_isword u)) text
      in case matches of [] \<Rightarrow> None | m # _ \<Rightarrow> Some m)"

definition role_keywords :: "str list" where
  "role_keywords = map py [''Manager'', ''Director'', ''Lead'', ''Engineer'', ''Recruiter'',
     ''VP'', ''Head'', ''Chief'', ''Senior'', ''Principal'']"

text \<open>
  The inner loop of \<open>_extract_role\<close>: the first word of the title, not the very first
  one, that contains the keyword, with its neighbours (\<open>words[max(0, i - 1) : i + 2]\<close>).
\<close>

function role_at :: "str \<Rightarrow> str list \<Rightarrow> nat \<Rightarrow> str option" where
  "role_at keyword ws i =
     (if length ws \<le> i then None
      else if str_in keyword (ws ! i) \<and> 0 < i
      then Some (join (py '' '') (slice (max 0 (i - 1)) (i + 2) ws))
      else role_at keyword ws (i + 1))"
  by pat_completeness auto
termination
  by (relation "measure (\<lambda>(keyword, ws, i). length ws - i)") auto

declare role_at.simps [simp del]

fun role_loop :: "str list \<Rightarrow> str \<Rightarrow> str \<Rightarrow> str" where
  "role_loop [] combined title = py ''Unknown Role''"
| "role_loop (keyword # ks) combined title =
     (if str_in keyword combined
      then (case role_at keyword (words title) 0 of
              Some r \<Rightarrow> r
            | None \<Rightarrow> role_loop ks combined title)
      else role_loop ks combined title)"

definition extract_role :: "str \<Rightarrow> str \<Rightarrow> str option" where
  "extract_role title snippet = Some (role_loop role_keywords (title @ py '' '' @ snippet) title)"

definition calculate_confidence ::
  "unicode_data \<Rightarrow> str option \<Rightarrow> str option \<Rightarrow> str \<Rightarrow> str \<Rightarrow> rat" where
  "calculate_confidence u email linkedin company snippet =
     (let score = fl (3 / 10);
          score = (if truthy email then fadd score (fl (4 / 10)) else score);
          score = (if truthy linkedin then fadd score (fl (2 / 10)) else score);
          score = (if str_in (str_lower u company) (str_lower u snippet)
                   then fadd score (fl (1 / 10)) else score)
      in min score 1)"

definition extract_contact_from_result ::
  "unicode_data \<Rightarrow> search_result \<Rightarrow> str \<Rightarrow> contact_candidate option" where
  "extract_contact_from_result u result company_name =
     (let title = dict_get result ''title'' [];
          snippet = dict_get result ''body'' [];
          url = dict_get result ''href'' [];
          name = extract_name_from_title u title
      in if \<not> truthy name then None
         else let email = extract_email u (title @ py '' '' @ snippet);
                  role = extract_role title snippet;
                  linkedin_url = (if str_in (py ''linkedin.com'') url then Some url else None);
                  confidence = calculate_confidence u email linkedin_url company_name snippet
              in Some \<lparr> cc_name = the name, cc_role = role, cc_email = email,
                        cc_email_confidence =
                          (if truthy email then py ''confirmed'' else py ''unknown''),
                        cc_linkedin = linkedin_url, cc_source = url,
                        cc_confidence_score = confidence \<rparr>)"

text \<open>
  \<open>generate_email_permutations\<close>. All five patterns are built before the first three
  are taken, and the fourth reads \<open>first[0]\<close>, which raises \<open>IndexError\<close> on an empty
  string. The confidence of the candidate of rank \<open>i\<close> is the float \<open>0.7 - (i * 0.1)\<close>.
\<close>

definition index0 :: "str \<Rightarrow> py_error + int" where
  "index0 s = (case s of [] \<Rightarrow> Inl IndexError | c # _ \<Rightarrow> Inr c)"

definition index1 :: "str list \<Rightarrow> py_error + str" where
  "index1 xs = (case xs of _ # x # _ \<Rightarrow> Inr x | _ \<Rightarrow> Inl IndexError)"

definition permutation_candidate :: "str \<Rightarrow> str \<Rightarrow> nat \<times> str \<Rightarrow> contact_candidate" where
  "permutation_candidate first_name last_name ie =
     \<lparr> cc_name = first_name @ py '' '' @ last_name, cc_role = None, cc_email = Some (snd ie),
       cc_email_confidence = py ''guessed'', cc_linkedin = None,
       cc_source = py ''email_permutation'',
       cc_confidence_score = fsub (fl (7 / 10)) (fmul (of_nat (fst ie)) (fl (1 / 10))) \<rparr>"

definition generate_email_permutations ::
  "unicode_data \<Rightarrow> str \<Rightarrow> str \<Rightarrow> str \<Rightarrow> py_error + contact_candidate list" where
  "generate_email_permutations u first_name last_name domain0 =
     (let first = strip (str_lower u first_name);
          last = strip (str_lower u last_name);
          domain = strip (str_lower u domain0)
      in case (if str_in (py ''@'') domain then index1 (split_sep (py ''@'') domain) else Inr domain) of
           Inl e \<Rightarrow> Inl e
         | Inr domain \<Rightarrow>
             (case index0 first of
                Inl e \<Rightarrow> Inl e
              | Inr f0 \<Rightarrow>
                  (let patterns =
                         [first @ py ''.'' @ last @ py ''@'' @ domain,
                          first @ py ''@'' @ domain,
                          first @ last @ py ''@'' @ domain,
                          [f0] @ last @ py ''@'' @ domain,
                          first @ py ''_'' @ last @ py ''@'' @ domain]
                   in Inr (map (permutation_candidate first_name last_name)
                             (enumerate 0 (take 3 patterns))))))"

section \<open>Draft quality validation (core/models.py, core/validators.py)\<close>

text \<open>
  The fields of \<open>EmailDraft\<close> that validation reads or that pydantic derives, prefixed
  \<open>ed_\<close>; the remaining fields (personalization plan, creation time) live in the
  extension of the record. \<open>QualityCheck\<close> has its fields prefixed \<open>qc_\<close>.
\<close>

record email_draft =
  ed_subject :: str
  ed_body :: str
  ed_recipient_email :: "str option"
  ed_recipient_name :: "str option"
  ed_job_title :: str
  ed_company :: str
  ed_word_count :: nat
  ed_gmail_draft_id :: "str option"

record quality_check =
  qc_has_metric :: bool
  qc_has_project_link :: bool
  qc_has_company_hook :: bool
  qc_has_clear_cta :: bool
  qc_under_word_limit :: bool
  qc_no_emojis :: bool
  qc_no_bullet_dashes :: bool
  qc_score :: rat
  qc_issues :: "str list"
  qc_passed :: bool

text \<open>
  The validators of \<open>QualityCheck\<close>: \<open>sum(checks) / len(checks) * 100\<close> divides two
  integers into a float and multiplies it by 100; \<open>passed\<close> compares the score with 70.0.
\<close>

definition calculate_score :: "bool list \<Rightarrow> rat" where
  "calculate_score checks =
     fmul (fdiv (of_nat (length (filter (\<lambda>b. b) checks))) (of_nat (length checks))) 100"

definition check_passed :: "rat \<Rightarrow> bool" where
  "check_passed score \<longleftrightarrow> 70 \<le> score"

definition QualityCheck ::
  "bool \<Rightarrow> bool \<Rightarrow> bool \<Rightarrow> bool \<Rightarrow> bool \<Rightarrow> bool \<Rightarrow> bool \<Rightarrow> quality_check" where
  "QualityCheck has_metric has_project_link has_company_hook has_clear_cta under_word_limit
       no_emojis no_bullet_dashes =
     (let score = calculate_score [has_metric, has_project_link, has_company_hook,
                     has_clear_cta, under_word_limit, no_emojis, no_bullet_dashes]
      in \<lparr> qc_has_metric = has_metric, qc_has_project_link = has_project_link,
           qc_has_company_hook = has_company_hook, qc_has_clear_cta = has_clear_cta,
           qc_under_word_limit = under_word_limit, qc_no_emojis = no_emojis,
           qc_no_bullet_dashes = no_bullet_dashes, qc_score = score, qc_issues = [],
           qc_passed = check_passed score \<rparr>)"

text \<open>
  The patterns that \<open>DraftValidator.__init__\<close> compiles. The checks are modelled with
  \<open>lower\<close> and with the ASCII digits and letters of the patterns, as they act on a
  draft in ASCII text.
\<close>

definition emoji_pattern :: regex where
  "emoji_pattern =
     Plus (Cset [(128512, 128591), (127744, 128511), (128640, 128767), (127456, 127487),
                 (9986, 10160), (9410, 127569), (129280, 129535)])"

definition bullet_chars :: regex where
  \<comment> \<open>\<open>[-\<bullet>*\<rightarrow>]\<close>: hyphen, U+2022, asterisk, U+2192\<close>
  "bullet_chars = Cset [(45, 45), (8226, 8226), (42, 42), (8594, 8594)]"

definition bullet_patterns :: "regex list" where
  "bullet_patterns =
     [seqs [Bol, Star Space, bullet_chars, Plus Space],
      seqs [Lit [10], Star Space, bullet_chars, Plus Space]]"

definition url_pattern :: regex where
  \<comment> \<open>\<open>http[s]?://(?:[a-zA-Z]|[0-9]|[$-_@.&+]|[!*\\(\\),]|(?:%[0-9a-fA-F][0-9a-fA-F]))+\<close>\<close>
  "url_pattern =
     seqs [Lit (py ''http''), Opt (Cset [(115, 115)]), Lit (py ''://''),
           Plus (alts [Cset [(97, 122), (65, 90)],
                       Cset [(48, 57)],
                       Cset [(36, 95), (64, 64), (46, 46), (38, 38), (43, 43)],
                       Cset [(33, 33), (42, 42), (92, 92), (40, 40), (92, 92), (41, 41), (44, 44)],
                       seqs [Lit (py ''%''), Cset [(48, 57), (97, 102), (65, 70)],
                             Cset [(48, 57), (97, 102), (65, 70)]]])]"

definition metric_patterns :: "regex list" where
  "metric_patterns =
     [seqs [Plus Digit, Lit (py ''%'')],
      seqs [Plus Digit, Cset [(75, 75), (107, 107), (77, 77), (109, 109)]],
      seqs [Plus Digit, Lit (py ''x'')],
      seqs [Plus Digit, Star Space,
            words_of [''users'', ''customers'', ''developers'', ''engineers'']],
      seqs [words_of [''increased'', ''decreased'', ''improved'', ''reduced'', ''grew'', ''scaled''],
            Plus Space, Opt (seqs [Lit (py ''by''), Plus Space]), Plus Digit]]"

definition cta_patterns :: "regex list" where
  "cta_patterns =
     [seqs [Opt (words_of [''quick'', ''brief'', ''short'']), Star Space,
            words_of [''call'', ''chat'', ''meeting'', ''demo'']],
      seqs [words_of [''available'', ''free''], Plus Space,
            words_of [''this week'', ''next week'', ''to chat'']],
      words_of [''discuss'', ''talk'', ''show'', ''demo''],
      seqs [words_of [''7'', ''10'', ''15''], Star (Cset (space_ranges @ [(45, 45)])),
            words_of [''min'', ''minute'']]]"

definition check_has_metric :: "str \<Rightarrow> bool" where
  "check_has_metric text =
     list_ex (\<lambda>pattern. re_search (Flags True False) pattern text \<noteq> None) metric_patterns"

definition check_has_link :: "str \<Rightarrow> bool" where
  "check_has_link text =
     (let matches = re_findall (Flags False False) url_pattern text in 0 < length matches)"

definition check_company_hook :: "'a email_draft_scheme \<Rightarrow> bool" where
  "check_company_hook draft =
     (let body_lower = lower (ed_body draft)
      in if ed_company draft \<noteq> [] \<and> str_in (lower (ed_company draft)) body_lower then True
         else if ed_job_title draft \<noteq> [] \<and>
                 list_ex (\<lambda>word. str_in word body_lower)
                   (filter (\<lambda>word. 3 < length word) (take 3 (words (lower (ed_job_title draft)))))
         then True
         else False)"

definition check_has_cta :: "str \<Rightarrow> bool" where
  "check_has_cta text =
     list_ex (\<lambda>pattern. re_search (Flags True False) pattern text \<noteq> None) cta_patterns"

definition check_word_limit :: "str \<Rightarrow> nat \<Rightarrow> bool" where
  "check_word_limit body max_words = (let word_count = length (words body) in word_count \<le> max_words)"

definition check_no_emojis :: "str \<Rightarrow> bool" where
  "check_no_emojis text \<longleftrightarrow> re_search (Flags False False) emoji_pattern text = None"

definition check_no_bullets :: "str \<Rightarrow> bool" where
  "check_no_bullets body \<longleftrightarrow>
     \<not> list_ex (\<lambda>pattern. re_search (Flags False True) pattern body \<noteq> None) bullet_patterns"

text \<open>\<open>str(n)\<close> for a count, and the issue messages (each starts with U+274C).\<close>

function decimal :: "nat \<Rightarrow> str" where
  "decimal n = (if n < 10 then [48 + int n] else decimal (n div 10) @ [48 + int (n mod 10)])"
  by pat_completeness auto
termination
  by (relation "measure (\<lambda>n. n)") auto

declare decimal.simps [simp del]

definition cross :: str where
  "cross = [10060, 32]"

definition generate_issues :: "quality_check \<Rightarrow> 'a email_draft_scheme \<Rightarrow> str list" where
  "generate_issues checks draft =
     (if \<not> qc_has_metric checks
      then [cross @ py ''No concrete metrics found (e.g., '' @ [39] @ py ''40% improvement'' @ [39]
              @ py '', '' @ [39] @ py ''10K users'' @ [39] @ py '')'']
      else []) @
     (if \<not> qc_has_project_link checks
      then [cross @ py ''No project link found (GitHub, portfolio, demo)'']
      else []) @
     (if \<not> qc_has_company_hook checks
      then [cross @ py ''No specific reference to '' @ ed_company draft @ py '' or job role'']
      else []) @
     (if \<not> qc_has_clear_cta checks
      then [cross @ py ''No clear call-to-action (e.g., '' @ [39] @ py ''10-minute call'' @ [39]
              @ py '', '' @ [39] @ py ''quick demo'' @ [39] @ py '')'']
      else []) @
     (if \<not> qc_under_word_limit checks
      then (let word_count = length (words (ed_body draft))
            in [cross @ py ''Too long: '' @ decimal word_count @ py '' words (limit: 180)''])
      else []) @
     (if \<not> qc_no_emojis checks
      then [cross @ py ''Contains emojis (remove all emojis)'']
      else []) @
     (if \<not> qc_no_bullet_dashes checks
      then [cross @ py ''Contains bullet dashes (use paragraphs instead)'']
      else [])"

definition validate_draft :: "'a email_draft_scheme \<Rightarrow> quality_check" where
  "validate_draft draft =
     (let full_text = ed_subject draft @ py '' '' @ ed_body draft;
          checks = QualityCheck
                     (check_has_metric full_text)
                     (check_has_link full_text)
                     (check_company_hook draft)
                     (check_has_cta full_text)
                     (check_word_limit (ed_body draft) 180)
                     (check_no_emojis full_text)
                     (check_no_bullets (ed_body draft))
      in checks \<lparr> qc_issues := generate_issues checks draft \<rparr>)"

text \<open>
  \<open>EmailDraft(subject=..., body=..., job_title=..., company=...)\<close>: the other fields
  take their defaults and the validator of \<open>word_count\<close> counts the words of the body.
\<close>

definition EmailDraft :: "str \<Rightarrow> str \<Rightarrow> str \<Rightarrow> str \<Rightarrow> email_draft" where
  "EmailDraft subject body job_title company =
     \<lparr> ed_subject = subject, ed_body = body, ed_recipient_email = None,
       ed_recipient_name = None, ed_job_title = job_title, ed_company = company,
       ed_word_count = length (words body), ed_gmail_draft_id = None \<rparr>"

text \<open>
  Two drafts used as examples: the scenario draft of the specification, with the subject
  left open, and a plain draft with no metric, link, hook or call to action.
\<close>

definition scenario_body :: str where
  "scenario_body = py ''I reduced latency by 40% and increased throughput by 2x. Check github.com/me/proj. Would you have 15 minutes this week?''"

definition scenario_draft :: "str \<Rightarrow> email_draft" where
  "scenario_draft subject = EmailDraft subject scenario_body (py ''Senior Engineer'') (py ''Acme'')"

definition plain_draft :: email_draft where
  "plain_draft = EmailDraft (py ''Test'') (py ''I think I would be a great fit for your company.'')
     (py ''Engineer'') (py ''TechCo'')"

section \<open>The LLM client (core/llm.py)\<close>

subsection \<open>Extracting the JSON object from a response\<close>

text \<open>\<open>find sub s\<close> is \<open>s.find(sub)\<close>, with \<open>None\<close> for \<open>-1\<close>.\<close>

fun find_from :: "str \<Rightarrow> str \<Rightarrow> nat \<Rightarrow> nat option" where
  "find_from sub [] i = (if sub = [] then Some i else None)"
| "find_from sub (c # cs) i = (if startswith (c # cs) sub then Some i else find_from sub cs (i + 1))"

definition find :: "str \<Rightarrow> str \<Rightarrow> nat option" where
  "find sub s = find_from sub s 0"

definition preambles :: "str list" where
  "preambles = [py ''here'' @ [39] @ py ''s the json:'', py ''here is the json:'',
                py ''json:'', py ''output:'']"

text \<open>
  The preambles and the tag \<open>json\<close> are looked for at the start of the lower-cased
  response. Here \<open>lower\<close> answers as \<open>str.lower\<close> does on every response: the tested
  texts are ASCII, and the only characters outside ASCII whose lower case holds an
  ASCII letter are U+0130 (an \<open>i\<close> followed by U+0307) and U+212A (a \<open>k\<close>), neither of
  which can stand in a match of one of them.
\<close>

definition strip_preambles :: "str \<Rightarrow> str" where
  "strip_preambles response =
     foldl (\<lambda>response pre.
              if startswith (lower response) pre then strip (drop (length pre) response)
              else response)
       response preambles"

definition strip_code_block :: "str \<Rightarrow> str" where
  "strip_code_block response =
     (if str_in (py ''```'') response
      then (let parts = split_sep (py ''```'') response
            in if 3 \<le> length parts
               then (let response = parts ! 1
                     in if startswith (lower (strip response)) (py ''json'')
                        then strip (drop 4 (strip response))
                        else response)
               else response)
      else response)"

text \<open>
  The loop that counts braces from \<open>start\<close>: the result is \<open>end\<close>, or \<open>None\<close> when the
  loop finishes with \<open>end == -1\<close>.
\<close>

function brace_scan :: "str \<Rightarrow> nat \<Rightarrow> int \<Rightarrow> nat option" where
  "brace_scan response i brace_count =
     (if i < length response
      then (if response ! i = 123 then brace_scan response (i + 1) (brace_count + 1)
            else if response ! i = 125
            then (if brace_count - 1 = 0 then Some (i + 1)
                  else brace_scan response (i + 1) (brace_count - 1))
            else brace_scan response (i + 1) brace_count)
      else None)"
  by pat_completeness auto
termination
  by (relation "measure (\<lambda>(response, i, brace_count). length response - i)") auto

declare brace_scan.simps [simp del]

definition prepare_response :: "str \<Rightarrow> str" where
  \<comment> \<open>the response once white space, preambles and code fences are removed\<close>
  "prepare_response response = strip_code_block (strip_preambles (strip response))"

definition no_object_msg :: str where
  "no_object_msg = py ''No JSON object found in response''"

definition malformed_msg :: str where
  "malformed_msg = py ''Malformed JSON: no matching closing brace''"

definition clean_json_response :: "str \<Rightarrow> py_error + str" where
  "clean_json_response response0 =
     (let response = prepare_response response0
      in case find [123] response of
           None \<Rightarrow> Inl (ValueError no_object_msg)
         | Some start \<Rightarrow>
             (case brace_scan response start 0 of
                None \<Rightarrow> Inl (ValueError malformed_msg)
              | Some end' \<Rightarrow> Inr (slice start end' response)))"

text \<open>
  The brace depth of a text, and the texts that brace counting accepts as one object:
  they open with a brace, their depth is zero, and no shorter non-empty prefix has
  depth zero, so that the last character is the brace that matches the first.
\<close>

definition depth :: "str \<Rightarrow> int" where
  "depth s = int (count_list s 123) - int (count_list s 125)"

definition balanced_object :: "str \<Rightarrow> bool" where
  "balanced_object obj \<longleftrightarrow>
     obj \<noteq> [] \<and> hd obj = 123 \<and> depth obj = 0 \<and>
     list_all (\<lambda>k. depth (take k obj) \<noteq> 0) [1..<length obj]"

definition never_closed :: "str \<Rightarrow> bool" where
  \<comment> \<open>from an opening brace on, the depth never returns to zero\<close>
  "never_closed rest \<longleftrightarrow>
     rest \<noteq> [] \<and> hd rest = 123 \<and> list_all (\<lambda>k. depth (take k rest) \<noteq> 0) [1..<length rest + 1]"

subsection \<open>Generation with retries\<close>

text \<open>
  The HTTP call to the Ollama server is a parameter: a transport takes the state of the
  outside world and the payload (model, prompt, temperature, number of tokens) and
  returns either the exception that \<open>requests.post\<close> raised or the response, and the new
  state of the world. A response has a status code and a body; \<open>response.json()\<close>
  raises on a body that is not JSON, and otherwise gives the \<open>response\<close> entry of the
  body, if it has one.
\<close>

datatype http_error = Timeout | RequestError str

datatype http_body = NotJson str | Body "str option"

datatype http_response = Response (status_code: nat) (body: http_body)

type_synonym http_result = "http_error + http_response"

type_synonym payload = "str \<times> str \<times> rat \<times> int"

type_synonym 'w transport = "'w \<Rightarrow> payload \<Rightarrow> http_result \<times> 'w"

definition timeout_msg :: str where
  "timeout_msg = py ''LLM request timed out. Try a smaller model or reduce prompt size.''"

definition generation_failed :: "str \<Rightarrow> py_error" where
  "generation_failed msg = Exception (py ''LLM generation failed: '' @ msg)"

definition model_not_found_msg :: "str \<Rightarrow> str" where
  "model_not_found_msg model = py ''Model '' @ [39] @ model @ [39] @
     py '' not found. Please run `ollama pull '' @ model @ py ''` in terminal.''"

text \<open>What \<open>generate_text\<close> makes of the outcome of the HTTP call.\<close>

definition interpret_response :: "str \<Rightarrow> http_result \<Rightarrow> py_error + str" where
  "interpret_response model r =
     (case r of
        Inl Timeout \<Rightarrow> Inl (Exception timeout_msg)
      | Inl (RequestError msg) \<Rightarrow> Inl (generation_failed msg)
      | Inr response \<Rightarrow>
          if status_code response = 200
          then (case body response of
                  NotJson msg \<Rightarrow> Inl (generation_failed msg)
                | Body result \<Rightarrow> Inr (strip (case result of None \<Rightarrow> [] | Some t \<Rightarrow> t)))
          else if status_code response = 404
          then Inl (generation_failed (model_not_found_msg model))
          else Inl (generation_failed (py ''Ollama API error: '' @ decimal (status_code response))))"

definition generate_text ::
  "'w transport \<Rightarrow> str \<Rightarrow> 'w \<Rightarrow> str \<Rightarrow> rat \<Rightarrow> int \<Rightarrow> (py_error + str) \<times> 'w" where
  "generate_text post model w prompt temperature max_tokens =
     (case post w (model, prompt, temperature, max_tokens) of
        (r, w') \<Rightarrow> (interpret_response model r, w'))"

text \<open>
  \<open>json.loads\<close> is a parameter as well: it decodes a text to a value, raises
  \<open>JSONDecodeError\<close>, or raises some other exception (\<open>RecursionError\<close> on deep nesting).
\<close>

datatype 'j loads_result = Decoded 'j | JSONDecodeError str | LoadsError str

definition json_prompt :: "str \<Rightarrow> str" where
  "json_prompt prompt = prompt @ [10, 10] @
     py ''IMPORTANT: Return ONLY valid JSON, no markdown, no explanations.''"

definition json_failed :: "str \<Rightarrow> py_error" where
  "json_failed msg = Exception (py ''LLM JSON generation failed: '' @ msg)"

definition parse_failed :: "int \<Rightarrow> py_error" where
  "parse_failed max_retries =
     Exception (py ''Failed to parse JSON after '' @
       (if max_retries < 0 then py ''-'' else []) @ decimal (nat \<bar>max_retries\<bar>) @ py '' attempts.'')"

text \<open>
  One round of the \<open>try\<close> block, from the text that \<open>generate_text\<close> gave or the exception
  it raised: the value returned, a \<open>JSONDecodeError\<close> (the only case that is retried), or
  the exception that the last \<open>except\<close> clause wraps.
\<close>

datatype 'j outcome = Returned 'j | DecodeFailed | Raised py_error

definition attempt_outcome :: "(str \<Rightarrow> 'j loads_result) \<Rightarrow> py_error + str \<Rightarrow> 'j outcome" where
  "attempt_outcome loads generated =
     (case generated of
        Inl e \<Rightarrow> Raised (json_failed (str_of_error e))
      | Inr response_text \<Rightarrow>
          (case clean_json_response response_text of
             Inl e \<Rightarrow> Raised (json_failed (str_of_error e))
           | Inr cleaned \<Rightarrow>
               (case loads cleaned of
                  Decoded parsed \<Rightarrow> Returned parsed
                | JSONDecodeError msg \<Rightarrow> DecodeFailed
                | LoadsError msg \<Rightarrow> Raised (json_failed msg))))"

text \<open>
  \<open>generate_json\<close>: the loop over \<open>range(max_retries)\<close>. The result is \<open>None\<close> when the
  loop body never runs. Printing and sleeping are left out.
\<close>

function generate_json_loop ::
  "'w transport \<Rightarrow> (str \<Rightarrow> 'j loads_result) \<Rightarrow> str \<Rightarrow> str \<Rightarrow> int \<Rightarrow> int \<Rightarrow> rat \<Rightarrow> 'w
     \<Rightarrow> (py_error + 'j option) \<times> 'w" where
  "generate_json_loop post loads model prompt max_retries attempt temperature w =
     (if attempt < max_retries
      then (case generate_text post model w (json_prompt prompt) temperature 3000 of
              (generated, w') \<Rightarrow>
                (case attempt_outcome loads generated of
                   Returned parsed \<Rightarrow> (Inr (Some parsed), w')
                 | Raised e \<Rightarrow> (Inl e, w')
                 | DecodeFailed \<Rightarrow>
                     if attempt < max_retries - 1
                     then generate_json_loop post loads model prompt max_retries (attempt + 1)
                            (fmul temperature (1 / 2)) w'
                     else (Inl (parse_failed max_retries), w')))
      else (Inr None, w))"
  by pat_completeness auto
termination
  by (relation "measure (\<lambda>(post, loads, model, prompt, max_retries, attempt, temperature, w).
                   nat (max_retries - attempt))") auto

declare generate_json_loop.simps [simp del]

definition generate_json ::
  "'w transport \<Rightarrow> (str \<Rightarrow> 'j loads_result) \<Rightarrow> str \<Rightarrow> str \<Rightarrow> rat \<Rightarrow> int \<Rightarrow> 'w
     \<Rightarrow> (py_error + 'j option) \<times> 'w" where
  "generate_json post loads model prompt temperature max_retries w =
     generate_json_loop post loads model prompt max_retries 0 temperature w"

text \<open>
  To count the calls of the transport, \<open>logged post\<close> is the transport \<open>post\<close> that also
  appends every payload it receives, with the result it gave, to a log kept in the
  state of the world.
\<close>

type_synonym call = "payload \<times> http_result"

definition logged :: "'w transport \<Rightarrow> ('w \<times> call list) transport" where
  "logged post wl payload =
     (case post (fst wl) payload of (r, w') \<Rightarrow> (r, (w', snd wl @ [(payload, r)])))"

definition call_outcome :: "(str \<Rightarrow> 'j loads_result) \<Rightarrow> call \<Rightarrow> 'j outcome" where
  "call_outcome loads c =
     (case c of ((model, prompt, temperature, max_tokens), r) \<Rightarrow>
        attempt_outcome loads (interpret_response model r))"

text \<open>
  A transport for examples: the world is the list of the results still to come, and a
  call takes the first of them (the request fails when none is left). \<open>loads_braces\<close>
  stands for \<open>json.loads\<close> on the two texts of the examples: it decodes \<open>{}\<close> to the
  empty list of entries and rejects \<open>{x}\<close>.
\<close>

fun canned :: "http_result list transport" where
  "canned [] payload = (Inl (RequestError (py ''connection refused'')), [])"
| "canned (r # rs) payload = (r, rs)"

definition loads_braces :: "str \<Rightarrow> (str \<times> str) list loads_result" where
  "loads_braces s =
     (if s = py ''{}'' then Decoded []
      else JSONDecodeError (py ''Expecting property name enclosed in double quotes''))"

section \<open>CV parsing (core/cv_parser.py, core/models.py, core/prompts.py)\<close>

text \<open>
  \<open>CVProfile\<close> with its nested models, fields prefixed \<open>ex_\<close>, \<open>pr_\<close> and \<open>cv_\<close>.
\<close>

record experience =
  ex_title :: str
  ex_company :: str
  ex_duration :: str
  ex_achievements :: "str list"
  ex_metrics :: "str list"
  ex_technologies :: "str list"

record project =
  pr_name :: str
  pr_description :: str
  pr_technologies :: "str list"
  pr_link :: "str option"
  pr_github :: "str option"
  pr_impact :: "str option"

record cv_profile =
  cv_name :: "str option"
  cv_email :: "str option"
  cv_phone :: "str option"
  cv_linkedin :: "str option"
  cv_github :: "str option"
  cv_portfolio :: "str option"
  cv_summary :: "str option"
  cv_experiences :: "experience list"
  cv_projects :: "project list"
  cv_skills :: "str list"
  cv_education :: "str list"
  cv_raw_text :: str

text \<open>
  \<open>CV_PARSE_PROMPT.format(cv_text=cv_text)\<close>: the lines of the template before and
  after the placeholder, with the doubled braces of the template written once.
\<close>

definition cv_prompt_head :: "str list" where
  \<open>cv_prompt_head =
     [py ''You are an expert CV analyzer. Extract structured information from the CV text below.'',
      py '''',
      py ''CV TEXT:'',
      py '''']\<close>

definition cv_prompt_tail :: "str list" where
  \<open>cv_prompt_tail =
     [py '''',
      py '''',
      py ''Extract and return ONLY valid JSON with this exact structure:'',
      py ''{'',
      py ''    "name": "Full Name",'',
      py ''    "email": "email@example.com",'',
      py ''    "phone": "+1234567890",'',
      py ''    "linkedin": "linkedin.com/in/username",'',
      py ''    "github": "github.com/username",'',
      py ''    "portfolio": "portfolio-url.com",'',
      py ''    "summary": "Brief summary",'',
      py ''    "experiences": ['',
      py ''        {'',
      py ''            "title": "Job Title",'',
      py ''            "company": "Company",'',
      py ''            "duration": "Dates",'',
      py ''            "achievements": ["Action result 1", "Action result 2"],'',
      py ''            "metrics": ["Improved X by Y%", "Served N users"],'',
      py ''            "technologies": ["Tech1", "Tech2"]'',
      py ''        }'',
      py ''    ],'',
      py ''    "projects": ['',
      py ''        {'',
      py ''            "name": "Project Name",'',
      py ''            "description": "One sentence description",'',
      py ''            "technologies": ["Tech1"],'',
      py ''            "link": "https://url.com",'',
      py ''            "impact": "Metric or scale"'',
      py ''        }'',
      py ''    ],'',
      py ''    "skills": ["Skill1", "Skill2"],'',
      py ''    "education": ["Degree, Uni, Year"]'',
      py ''}'',
      py '''',
      py ''RULES:'',
      py ''1. Extract ALL details.'',
      py ''2. Return ONLY valid JSON.'']\<close>

definition cv_parse_prompt :: "str \<Rightarrow> str" where
  "cv_parse_prompt cv_text = join [10] cv_prompt_head @ cv_text @ join [10] cv_prompt_tail"

text \<open>
  The fallback of \<open>parse_text\<close>: \<open>CVProfile(raw_text=cv_text, summary=...)\<close>, every other
  field at its default.
\<close>

definition fallback_profile :: "str \<Rightarrow> py_error \<Rightarrow> cv_profile" where
  "fallback_profile cv_text e =
     \<lparr> cv_name = None, cv_email = None, cv_phone = None, cv_linkedin = None, cv_github = None,
       cv_portfolio = None,
       cv_summary = Some (py ''CV parsing failed: '' @ str_of_error e @ py ''. Using raw text.''),
       cv_experiences = [], cv_projects = [], cv_skills = [], cv_education = [],
       cv_raw_text = cv_text \<rparr>"

definition none_item_assignment :: py_error where
  "none_item_assignment =
     TypeError ([39] @ py ''NoneType'' @ [39] @ py '' object does not support item assignment'')"

definition too_short :: py_error where
  "too_short = ValueError (py ''CV text is too short or empty'')"

text \<open>
  \<open>parse_text\<close>. Validation by pydantic is a parameter: \<open>build cv_data cv_text\<close> stands
  for \<open>cv_data["raw_text"] = cv_text; CVProfile(**cv_data)\<close> and gives the profile or the
  exception raised. \<open>generate_json\<close> is called with temperature 0.2 and its default of
  two attempts.
\<close>

definition parse_text ::
  "'w transport \<Rightarrow> (str \<Rightarrow> 'j loads_result) \<Rightarrow> ('j \<Rightarrow> str \<Rightarrow> py_error + cv_profile) \<Rightarrow> str \<Rightarrow>
     str \<Rightarrow> 'w \<Rightarrow> (py_error + cv_profile) \<times> 'w" where
  "parse_text post loads build model cv_text0 w =
     (if cv_text0 = [] \<or> length (strip cv_text0) < 50 then (Inl too_short, w)
      else (let cv_text = (if 12000 < length cv_text0 then take 12000 cv_text0 else cv_text0);
                prompt = cv_parse_prompt cv_text
            in case generate_json post loads model prompt (fl (2 / 10)) 2 w of
                 (Inl e, w') \<Rightarrow> (Inr (fallback_profile cv_text e), w')
               | (Inr None, w') \<Rightarrow> (Inr (fallback_profile cv_text none_item_assignment), w')
               | (Inr (Some cv_data), w') \<Rightarrow>
                   (case build cv_data cv_text of
                      Inl e \<Rightarrow> (Inr (fallback_profile cv_text e), w')
                    | Inr profile \<Rightarrow> (Inr profile, w'))))"

text \<open>
  For examples, validation of an object whose values are all strings: the optional
  text fields are read from the entries, and an entry for one of the list fields is
  rejected, a string not being a list.
\<close>

definition build_from_entries :: "(str \<times> str) list \<Rightarrow> str \<Rightarrow> py_error + cv_profile" where
  "build_from_entries cv_data cv_text =
     (if list_ex (\<lambda>k. map_of cv_data k \<noteq> None)
           [py ''experiences'', py ''projects'', py ''skills'', py ''education'']
      then Inl (Exception (py ''validation error for CVProfile''))
      else Inr \<lparr> cv_name = map_of cv_data (py ''name''), cv_email = map_of cv_data (py ''email''),
                 cv_phone = map_of cv_data (py ''phone''),
                 cv_linkedin = map_of cv_data (py ''linkedin''),
                 cv_github = map_of cv_data (py ''github''),
                 cv_portfolio = map_of cv_data (py ''portfolio''),
                 cv_summary = map_of cv_data (py ''summary''),
                 cv_experiences = [], cv_projects = [], cv_skills = [], cv_education = [],
                 cv_raw_text = cv_text \<rparr>)"

definition sample_cv :: str where
  "sample_cv = py ''Jane Doe, Senior Engineer. Ten years of Python, Docker and Kubernetes at Acme.''"

section \<open>Properties\<close>

subsection \<open>Float constants and the confidence score\<close>

lemma float_lits:
  "fl (1 / 10) = 3602879701896397 / 36028797018963968"
  "fl (2 / 10) = 3602879701896397 / 18014398509481984"
  "fl (3 / 10) = 5404319552844595 / 18014398509481984"
  "fl (4 / 10) = 3602879701896397 / 9007199254740992"
  "fl (7 / 10) = 3152519739159347 / 4503599627370496"
  by code_simp+








subsection \<open>Contact extraction and email permutations\<close>

lemma lit_ends_length:
  "c' \<in> set (lit_ends f ps c) \<Longrightarrow> length (snd c') + length ps = length (snd c)"
  by (induction f ps c rule: lit_ends.induct) (auto split: if_splits)

lemma star_ends_le:
  "c' \<in> set (star_ends step n c) \<Longrightarrow> length (snd c') \<le> length (snd c)"
proof (induction n arbitrary: c)
  case 0
  then show ?case by simp
next
  case (Suc n)
  from Suc.prems have "c' = c \<or>
      (\<exists>m \<in> set (step c). length (snd m) < length (snd c) \<and> c' \<in> set (star_ends step n m))"
    by auto
  then show ?case
  proof
    assume "c' = c"
    then show ?thesis by simp
  next
    assume "\<exists>m \<in> set (step c). length (snd m) < length (snd c) \<and> c' \<in> set (star_ends step n m)"
    then obtain m where m: "length (snd m) < length (snd c)" "c' \<in> set (star_ends step n m)"
      by blast
    from Suc.IH[OF m(2)] m(1) show ?thesis by simp
  qed
qed

lemma ends_le:
  "c' \<in> set (ends f r c) \<Longrightarrow> length (snd c') \<le> length (snd c)"
proof (induction r arbitrary: c c')
  case (Lit ps)
  then show ?case using lit_ends_length[of c' f ps c] by simp
next
  case (Cset rs)
  then show ?case by (cases c) (auto split: list.splits if_splits)
next
  case (Seq r1 r2)
  from Seq.prems obtain m where m: "m \<in> set (ends f r1 c)" "c' \<in> set (ends f r2 m)"
    by auto
  from Seq.IH(1)[OF m(1)] Seq.IH(2)[OF m(2)] show ?case by simp
next
  case (Star r)
  from Star.prems show ?case using star_ends_le[of c' _ _ c] by simp
qed (auto split: if_splits)

lemma ends_Cset_lt:
  "c' \<in> set (ends f (Cset rs) c) \<Longrightarrow> length (snd c') < length (snd c)"
  by (cases c) (auto split: list.splits if_splits)

lemma ends_Seq_lt1:
  assumes "\<And>c c'. c' \<in> set (ends f r1 c) \<Longrightarrow> length (snd c') < length (snd c)"
    and "c' \<in> set (ends f (Seq r1 r2) c)"
  shows "length (snd c') < length (snd c)"
proof -
  from assms(2) obtain m where m: "m \<in> set (ends f r1 c)" "c' \<in> set (ends f r2 m)"
    by auto
  from assms(1)[OF m(1)] ends_le[OF m(2)] show ?thesis by simp
qed

lemma ends_Seq_lt2:
  assumes "\<And>c c'. c' \<in> set (ends f r2 c) \<Longrightarrow> length (snd c') < length (snd c)"
    and "c' \<in> set (ends f (Seq r1 r2) c)"
  shows "length (snd c') < length (snd c)"
proof -
  from assms(2) obtain m where m: "m \<in> set (ends f r1 c)" "c' \<in> set (ends f r2 m)"
    by auto
  from assms(1)[OF m(2)] ends_le[OF m(1)] show ?thesis by simp
qed

lemma email_pattern_consumes:
  "c' \<in> set (ends f (email_pattern w) c) \<Longrightarrow> length (snd c') < length (snd c)"
  unfolding email_pattern_def seqs.simps Plus_def
  by (erule ends_Seq_lt2[rotated], erule ends_Seq_lt1[rotated], erule ends_Seq_lt1[rotated],
      erule ends_Cset_lt)

lemma findall_from_nonempty:
  "(\<And>c c'. c' \<in> set (ends f r c) \<Longrightarrow> length (snd c') < length (snd c))
   \<Longrightarrow> [] \<notin> set (findall_from f r prev s)"
proof (induction f r prev s rule: findall_from.induct)
  case (1 f r prev)
  have "ends f r (prev, []) = []"
  proof (cases "ends f r (prev, [])")
    case (Cons a list)
    then have "a \<in> set (ends f r (prev, []))" by simp
    from "1.prems"[OF this] show ?thesis by simp
  qed simp
  then show ?case by simp
next
  case (2 f r prev x xs)
  show ?case
  proof (cases "ends f r (prev, x # xs)")
    case Nil
    with 2 show ?thesis by simp
  next
    case (Cons a list)
    then have "a \<in> set (ends f r (prev, x # xs))" by simp
    from "2.prems"[OF this] have lt: "length (snd a) < length (x # xs)" by simp
    with Cons 2 show ?thesis by (cases a) auto
  qed
qed

lemma extract_email_nonempty: "extract_email u s \<noteq> Some []"
  using findall_from_nonempty[of "Flags False False" "email_pattern (chr_isword u)" None s,
      OF email_pattern_consumes]
  by (auto simp: extract_email_def re_findall_def Let_def split: list.splits)

lemma truthy_extract_email: "truthy (extract_email u s) \<longleftrightarrow> extract_email u s \<noteq> None"
  using extract_email_nonempty[of u s] by (cases "extract_email u s") (auto simp: truthy_def)

lemma tags_distinct:
  "py ''confirmed'' \<noteq> py ''unknown''" "py ''confirmed'' \<noteq> py ''guessed''"
  "py ''unknown'' \<noteq> py ''guessed''"
  by (simp_all add: py_def)

text \<open>
  Claim C10. Whatever the Unicode data, a contact extracted from a search result
  carries the tag \<open>confirmed\<close> exactly when \<open>_extract_email\<close> finds an address in title
  and snippet, and \<open>unknown\<close> exactly when it finds none; it never carries \<open>guessed\<close>.
  Every candidate that email-permutation generation returns carries \<open>guessed\<close>.
\<close>

theorem email_confidence_tag:
  "(extract_contact_from_result u result company_name = Some c \<longrightarrow>
      (cc_email_confidence c = py ''confirmed'' \<longleftrightarrow>
         extract_email u (dict_get result ''title'' [] @ py '' '' @ dict_get result ''body'' []) \<noteq> None) \<and>
      (cc_email_confidence c = py ''unknown'' \<longleftrightarrow>
         extract_email u (dict_get result ''title'' [] @ py '' '' @ dict_get result ''body'' []) = None) \<and>
      cc_email_confidence c \<noteq> py ''guessed'') \<and>
   (generate_email_permutations u first_name last_name domain = Inr cs \<longrightarrow>
      (\<forall>g \<in> set cs. cc_email_confidence g = py ''guessed''))"
proof -
  have a: "extract_contact_from_result u result company_name = Some c \<longrightarrow>
      (cc_email_confidence c = py ''confirmed'' \<longleftrightarrow>
         extract_email u (dict_get result ''title'' [] @ py '' '' @ dict_get result ''body'' []) \<noteq> None) \<and>
      (cc_email_confidence c = py ''unknown'' \<longleftrightarrow>
         extract_email u (dict_get result ''title'' [] @ py '' '' @ dict_get result ''body'' []) = None) \<and>
      cc_email_confidence c \<noteq> py ''guessed''"
    using tags_distinct
    by (auto simp: extract_contact_from_result_def Let_def truthy_extract_email split: if_splits)
  have b: "generate_email_permutations u first_name last_name domain = Inr cs \<longrightarrow>
      (\<forall>g \<in> set cs. cc_email_confidence g = py ''guessed'')"
    by (auto simp: generate_email_permutations_def Let_def permutation_candidate_def
             split: sum.splits if_splits)
  from a b show ?thesis by blast
qed

lemma startswith_single: "startswith (c # cs) [a] \<longleftrightarrow> c = a"
  by (simp add: startswith_def)

lemma str_in_single: "str_in [a] s \<longleftrightarrow> a \<in> set s"
  by (induction s) (auto simp: startswith_single)

lemma split_aux_hd: "hd (split_aux [a] cur s) = cur @ takeWhile (\<lambda>c. c \<noteq> a) s"
  by (induction s arbitrary: cur) (auto simp: startswith_single)

lemma split_aux_first:
  "a \<notin> set u \<Longrightarrow> split_aux [a] cur (u @ a # rest) = (cur @ u) # split_aux [a] [] rest"
  by (induction u arbitrary: cur) (auto simp: startswith_single)

lemma split_aux_not_Nil: "split_aux sep cur s \<noteq> []"
  by (induction sep cur s rule: split_aux.induct) auto

lemma index1_split:
  assumes "a \<in> set d"
  shows "index1 (split_sep [a] d) = Inr (takeWhile (\<lambda>c. c \<noteq> a) (tl (dropWhile (\<lambda>c. c \<noteq> a) d)))"
proof -
  let ?u = "takeWhile (\<lambda>c. c \<noteq> a) d" and ?r = "tl (dropWhile (\<lambda>c. c \<noteq> a) d)"
  from assms have "dropWhile (\<lambda>c. c \<noteq> a) d \<noteq> []" by simp
  moreover from this have "hd (dropWhile (\<lambda>c. c \<noteq> a) d) = a"
    using hd_dropWhile[of "\<lambda>c. c \<noteq> a" d] by simp
  ultimately have "dropWhile (\<lambda>c. c \<noteq> a) d = a # ?r"
    by (cases "dropWhile (\<lambda>c. c \<noteq> a) d") auto
  then have d: "d = ?u @ a # ?r"
    using takeWhile_dropWhile_id[of "\<lambda>c. c \<noteq> a" d] by simp
  have "a \<notin> set ?u" by (auto dest: set_takeWhileD)
  from split_aux_first[OF this, of "[]" ?r] d
  have s: "split_sep [a] d = ?u # split_aux [a] [] ?r"
    by (simp add: split_sep_def)
  obtain y ys where y: "split_aux [a] [] ?r = y # ys"
    using split_aux_not_Nil[of "[a]" "[]" ?r] by (cases "split_aux [a] [] ?r") auto
  with split_aux_hd[of a "[]" ?r] have "y = takeWhile (\<lambda>c. c \<noteq> a) ?r" by simp
  with s y show ?thesis by (simp add: index1_def)
qed

lemma permutation_floats:
  "fmul 0 (3602879701896397 / 36028797018963968) = 0"
  "fsub (3152519739159347 / 4503599627370496) 0 = 3152519739159347 / 4503599627370496"
  "fmul 1 (3602879701896397 / 36028797018963968) = 3602879701896397 / 36028797018963968"
  "fsub (3152519739159347 / 4503599627370496) (3602879701896397 / 36028797018963968)
     = 5404319552844595 / 9007199254740992"
  "fmul 2 (3602879701896397 / 36028797018963968) = 3602879701896397 / 18014398509481984"
  "fsub (3152519739159347 / 4503599627370496) (3602879701896397 / 18014398509481984)
     = 9007199254740991 / 18014398509481984"
  "fl (6 / 10) = 5404319552844595 / 9007199254740992"
  "fl (5 / 10) = 1 / 2"
  by code_simp+

lemma permutation_candidate_rank:
  "permutation_candidate a b (0, e) =
     \<lparr> cc_name = a @ py '' '' @ b, cc_role = None, cc_email = Some e,
       cc_email_confidence = py ''guessed'', cc_linkedin = None,
       cc_source = py ''email_permutation'',
       cc_confidence_score = 3152519739159347 / 4503599627370496 \<rparr>"
  "permutation_candidate a b (Suc 0, e) =
     \<lparr> cc_name = a @ py '' '' @ b, cc_role = None, cc_email = Some e,
       cc_email_confidence = py ''guessed'', cc_linkedin = None,
       cc_source = py ''email_permutation'',
       cc_confidence_score = 5404319552844595 / 9007199254740992 \<rparr>"
  "permutation_candidate a b (2, e) =
     \<lparr> cc_name = a @ py '' '' @ b, cc_role = None, cc_email = Some e,
       cc_email_confidence = py ''guessed'', cc_linkedin = None,
       cc_source = py ''email_permutation'',
       cc_confidence_score = 9007199254740991 / 18014398509481984 \<rparr>"
  unfolding permutation_candidate_def float_lits
  by (simp_all only: fst_conv snd_conv of_nat_0 of_nat_Suc of_nat_numeral add_0_right
        permutation_floats)

lemma generate_email_permutations_value:
  assumes "strip (str_lower u first_name) \<noteq> []"
  shows "generate_email_permutations u first_name last_name domain =
     (let first = strip (str_lower u first_name);
          last = strip (str_lower u last_name);
          d = strip (str_lower u domain);
          dom = (if 64 \<in> set d
                 then takeWhile (\<lambda>c. c \<noteq> 64) (tl (dropWhile (\<lambda>c. c \<noteq> 64) d))
                 else d);
          candidate = (\<lambda>e conf.
             \<lparr> cc_name = first_name @ py '' '' @ last_name, cc_role = None, cc_email = Some e,
               cc_email_confidence = py ''guessed'', cc_linkedin = None,
               cc_source = py ''email_permutation'', cc_confidence_score = conf \<rparr>)
      in Inr [candidate (first @ py ''.'' @ last @ py ''@'' @ dom) (fl (7 / 10)),
              candidate (first @ py ''@'' @ dom) (fl (6 / 10)),
              candidate (first @ last @ py ''@'' @ dom) (1 / 2 - 1 / 2 ^ 54)])"
proof -
  have at: "py ''@'' = [64]" by (simp add: py_def)
  have e: "enumerate 0 (take 3 [p1, p2, p3, p4, p5 :: str]) = [(0, p1), (Suc 0, p2), (2, p3)]"
    for p1 p2 p3 p4 p5
    by (simp add: numeral_3_eq_3)
  have v: "fl (7 / 10) = 3152519739159347 / 4503599627370496"
    "fl (6 / 10) = 5404319552844595 / 9007199254740992"
    "(1 / 2 - 1 / 2 ^ 54 :: rat) = 9007199254740991 / 18014398509481984"
    by (simp_all only: float_lits permutation_floats) simp
  obtain f0 fs where f: "strip (str_lower u first_name) = f0 # fs"
    using assms by (cases "strip (str_lower u first_name)") auto
  show ?thesis
  proof (cases "64 \<in> set (strip (str_lower u domain))")
    case True
    then show ?thesis
      unfolding generate_email_permutations_def Let_def at str_in_single v
      by (simp only: if_True index1_split[OF True] sum.case f index0_def list.case e list.map
            permutation_candidate_rank)
  next
    case False
    then show ?thesis
      unfolding generate_email_permutations_def Let_def at str_in_single v
      by (simp only: if_False sum.case f index0_def list.case e list.map
            permutation_candidate_rank)
  qed
qed


lemma jane_doe_permutations:
  "generate_email_permutations ascii_data (py ''Jane'') (py ''Doe'') (py ''acme.com'') =
     Inr [\<lparr> cc_name = py ''Jane Doe'', cc_role = None,
            cc_email = Some (py ''jane.doe@acme.com''), cc_email_confidence = py ''guessed'',
            cc_linkedin = None, cc_source = py ''email_permutation'',
            cc_confidence_score = fl (7 / 10) \<rparr>,
          \<lparr> cc_name = py ''Jane Doe'', cc_role = None,
            cc_email = Some (py ''jane@acme.com''), cc_email_confidence = py ''guessed'',
            cc_linkedin = None, cc_source = py ''email_permutation'',
            cc_confidence_score = fl (6 / 10) \<rparr>,
          \<lparr> cc_name = py ''Jane Doe'', cc_role = None,
            cc_email = Some (py ''janedoe@acme.com''), cc_email_confidence = py ''guessed'',
            cc_linkedin = None, cc_source = py ''email_permutation'',
            cc_confidence_score = 1 / 2 - 1 / 2 ^ 54 \<rparr>]"
proof -
  have h: "strip (str_lower ascii_data (py ''Jane'')) \<noteq> []" by code_simp
  show ?thesis
    unfolding generate_email_permutations_value[OF h] by code_simp
qed

text \<open>
  Claim C8, as amended. Whatever the Unicode data, for a first name that is not empty
  once lower-cased by \<open>str.lower\<close> and stripped, \<open>generate_email_permutations\<close> returns
  exactly three candidates, with the emails first.last@domain, first@domain and
  firstlast@domain in this order, where first, last and domain are the arguments
  lower-cased by \<open>str.lower\<close> and stripped, and a domain that contains \<open>@\<close> is reduced
  to the text between its first and its second \<open>@\<close>. Their confidences are the floats
  0.7, 0.6 and \<open>0.7 - 2 * 0.1\<close>, which is \<open>0.5 - 2\<^sup>-\<^sup>5\<^sup>4\<close> (printed
  0.49999999999999994), not 0.5. The witness is Jane, Doe and the address
  \<open>User@Acme.com\<close> followed by a blank.
\<close>

theorem generate_email_permutations_guarded:
  assumes "strip (str_lower u first_name) \<noteq> []"
  shows "generate_email_permutations u first_name last_name domain =
     (let first = strip (str_lower u first_name);
          last = strip (str_lower u last_name);
          d = strip (str_lower u domain);
          dom = (if 64 \<in> set d
                 then takeWhile (\<lambda>c. c \<noteq> 64) (tl (dropWhile (\<lambda>c. c \<noteq> 64) d))
                 else d);
          candidate = (\<lambda>e conf.
             \<lparr> cc_name = first_name @ py '' '' @ last_name, cc_role = None, cc_email = Some e,
               cc_email_confidence = py ''guessed'', cc_linkedin = None,
               cc_source = py ''email_permutation'', cc_confidence_score = conf \<rparr>)
      in Inr [candidate (first @ py ''.'' @ last @ py ''@'' @ dom) (fl (7 / 10)),
              candidate (first @ py ''@'' @ dom) (fl (6 / 10)),
              candidate (first @ last @ py ''@'' @ dom) (1 / 2 - 1 / 2 ^ 54)])"
  using assms by (rule generate_email_permutations_value)

theorem generate_email_permutations_guarded_witness:
  "strip (str_lower ascii_data (py ''Jane'')) \<noteq> [] \<and>
   generate_email_permutations ascii_data (py ''Jane'') (py ''Doe'') (py ''User@Acme.com '') =
     Inr [\<lparr> cc_name = py ''Jane Doe'', cc_role = None,
            cc_email = Some (py ''jane.doe@acme.com''), cc_email_confidence = py ''guessed'',
            cc_linkedin = None, cc_source = py ''email_permutation'',
            cc_confidence_score = fl (7 / 10) \<rparr>,
          \<lparr> cc_name = py ''Jane Doe'', cc_role = None,
            cc_email = Some (py ''jane@acme.com''), cc_email_confidence = py ''guessed'',
            cc_linkedin = None, cc_source = py ''email_permutation'',
            cc_confidence_score = fl (6 / 10) \<rparr>,
          \<lparr> cc_name = py ''Jane Doe'', cc_role = None,
            cc_email = Some (py ''janedoe@acme.com''), cc_email_confidence = py ''guessed'',
            cc_linkedin = None, cc_source = py ''email_permutation'',
            cc_confidence_score = 1 / 2 - 1 / 2 ^ 54 \<rparr>]"
proof -
  have h: "strip (str_lower ascii_data (py ''Jane'')) \<noteq> []" by code_simp
  have "generate_email_permutations ascii_data (py ''Jane'') (py ''Doe'') (py ''User@Acme.com '') =
     Inr [\<lparr> cc_name = py ''Jane Doe'', cc_role = None,
            cc_email = Some (py ''jane.doe@acme.com''), cc_email_confidence = py ''guessed'',
            cc_linkedin = None, cc_source = py ''email_permutation'',
            cc_confidence_score = fl (7 / 10) \<rparr>,
          \<lparr> cc_name = py ''Jane Doe'', cc_role = None,
            cc_email = Some (py ''jane@acme.com''), cc_email_confidence = py ''guessed'',
            cc_linkedin = None, cc_source = py ''email_permutation'',
            cc_confidence_score = fl (6 / 10) \<rparr>,
          \<lparr> cc_name = py ''Jane Doe'', cc_role = None,
            cc_email = Some (py ''janedoe@acme.com''), cc_email_confidence = py ''guessed'',
            cc_linkedin = None, cc_source = py ''email_permutation'',
            cc_confidence_score = 1 / 2 - 1 / 2 ^ 54 \<rparr>]"
    unfolding generate_email_permutations_guarded[OF h] by code_simp
  with h show ?thesis by (rule conjI)
qed

text \<open>
  The claim as stated fails at Jane, Doe, acme.com, where the third confidence is not
  the float 0.5, and at a blank first name, where the call raises \<open>IndexError\<close>.
\<close>

theorem generate_email_permutations_counterexample:
  "(case generate_email_permutations ascii_data (py ''Jane'') (py ''Doe'') (py ''acme.com'') of
      Inl err \<Rightarrow> [] | Inr cs \<Rightarrow> map cc_confidence_score cs)
     = [fl (7 / 10), fl (6 / 10), fl (5 / 10) - 1 / 2 ^ 54] \<and>
   fl (5 / 10) - 1 / 2 ^ 54 \<noteq> fl (5 / 10) \<and>
   generate_email_permutations ascii_data (py '' '') (py ''Doe'') (py ''acme.com'') = Inl IndexError"
proof -
  have a: "fl (5 / 10) = 1 / 2" by (rule permutation_floats)
  have b: "generate_email_permutations ascii_data (py '' '') (py ''Doe'') (py ''acme.com'') = Inl IndexError"
    by code_simp
  show ?thesis
    unfolding jane_doe_permutations a using b by simp
qed

theorem email_confidence_tag_witness:
  "extract_contact_from_result ascii_data
      [''title'' \<mapsto> py ''Jane Doe - Engineering Manager | LinkedIn'',
       ''body'' \<mapsto> py ''Jane leads hiring at Acme. Contact: jane.doe@acme.com'',
       ''href'' \<mapsto> py ''https://www.linkedin.com/in/janedoe''] (py ''Acme'') =
     Some \<lparr> cc_name = py ''Jane Doe'', cc_role = Some (py ''Engineering Manager |''),
            cc_email = Some (py ''jane.doe@acme.com''), cc_email_confidence = py ''confirmed'',
            cc_linkedin = Some (py ''https://www.linkedin.com/in/janedoe''),
            cc_source = py ''https://www.linkedin.com/in/janedoe'',
            cc_confidence_score = 1 - 1 / 2 ^ 53 \<rparr> \<and>
   extract_email ascii_data
     (dict_get [''title'' \<mapsto> py ''Jane Doe - Engineering Manager | LinkedIn'',
       ''body'' \<mapsto> py ''Jane leads hiring at Acme. Contact: jane.doe@acme.com'',
       ''href'' \<mapsto> py ''https://www.linkedin.com/in/janedoe''] ''title'' [] @ py '' '' @
      dict_get [''title'' \<mapsto> py ''Jane Doe - Engineering Manager | LinkedIn'',
       ''body'' \<mapsto> py ''Jane leads hiring at Acme. Contact: jane.doe@acme.com'',
       ''href'' \<mapsto> py ''https://www.linkedin.com/in/janedoe''] ''body'' []) \<noteq> None \<and>
   map cc_email_confidence
     (projr (generate_email_permutations ascii_data (py ''Jane'') (py ''Doe'') (py ''acme.com''))) =
     [py ''guessed'', py ''guessed'', py ''guessed'']"
proof -
  let ?r = "[''title'' \<mapsto> py ''Jane Doe - Engineering Manager | LinkedIn'',
       ''body'' \<mapsto> py ''Jane leads hiring at Acme. Contact: jane.doe@acme.com'',
       ''href'' \<mapsto> py ''https://www.linkedin.com/in/janedoe'']"
  let ?c = "\<lparr> cc_name = py ''Jane Doe'', cc_role = Some (py ''Engineering Manager |''),
            cc_email = Some (py ''jane.doe@acme.com''), cc_email_confidence = py ''confirmed'',
            cc_linkedin = Some (py ''https://www.linkedin.com/in/janedoe''),
            cc_source = py ''https://www.linkedin.com/in/janedoe'',
            cc_confidence_score = 1 - 1 / 2 ^ 53 \<rparr>"
  have h: "extract_contact_from_result ascii_data ?r (py ''Acme'') = Some ?c"
    by code_simp
  have g: "generate_email_permutations ascii_data (py ''Jane'') (py ''Doe'') (py ''acme.com'') =
     Inr (projr (generate_email_permutations ascii_data (py ''Jane'') (py ''Doe'') (py ''acme.com'')))"
    unfolding jane_doe_permutations by simp
  from email_confidence_tag[of ascii_data ?r "py ''Acme''" ?c "py ''Jane''" "py ''Doe''" "py ''acme.com''"
         "projr (generate_email_permutations ascii_data (py ''Jane'') (py ''Doe'') (py ''acme.com''))"] h g
  have e: "extract_email ascii_data (dict_get ?r ''title'' [] @ py '' '' @ dict_get ?r ''body'' []) \<noteq> None"
    and b: "\<forall>g \<in> set (projr (generate_email_permutations ascii_data (py ''Jane'') (py ''Doe'')
                (py ''acme.com''))). cc_email_confidence g = py ''guessed''"
    by simp_all
  have l: "length (projr (generate_email_permutations ascii_data (py ''Jane'') (py ''Doe'') (py ''acme.com'')))
             = 3"
    unfolding jane_doe_permutations by simp
  from b have "map cc_email_confidence
     (projr (generate_email_permutations ascii_data (py ''Jane'') (py ''Doe'') (py ''acme.com''))) =
     replicate (length (projr (generate_email_permutations ascii_data (py ''Jane'') (py ''Doe'')
        (py ''acme.com'')))) (py ''guessed'')"
    by (simp add: map_replicate_const[symmetric] del: map_replicate_const cong: map_cong)
  then have m: "map cc_email_confidence
     (projr (generate_email_permutations ascii_data (py ''Jane'') (py ''Doe'') (py ''acme.com''))) =
     [py ''guessed'', py ''guessed'', py ''guessed'']"
    unfolding l by (simp add: numeral_3_eq_3)
  from h e m show ?thesis by simp
qed

subsection \<open>Draft quality score\<close>

lemma sevenths:
  "fdiv 0 7 = 0"
  "fdiv 1 7 = 2573485501354569 / 18014398509481984"
  "fdiv 2 7 = 2573485501354569 / 9007199254740992"
  "fdiv 3 7 = 7720456504063707 / 18014398509481984"
  "fdiv 4 7 = 2573485501354569 / 4503599627370496"
  "fdiv 5 7 = 6433713753386423 / 9007199254740992"
  "fdiv 6 7 = 7720456504063707 / 9007199254740992"
  "fdiv 7 7 = 1"
  by code_simp+

lemma percentages:
  "fmul 0 100 = 0"
  "fmul (2573485501354569 / 18014398509481984) 100 = 2010535547933257 / 140737488355328"
  "fmul (2573485501354569 / 9007199254740992) 100 = 2010535547933257 / 70368744177664"
  "fmul (7720456504063707 / 18014398509481984) 100 = 6031606643799771 / 140737488355328"
  "fmul (2573485501354569 / 4503599627370496) 100 = 2010535547933257 / 35184372088832"
  "fmul (6433713753386423 / 9007199254740992) 100 = 5026338869833143 / 70368744177664"
  "fmul (7720456504063707 / 9007199254740992) 100 = 6031606643799771 / 70368744177664"
  "fmul 1 100 = 100"
  by code_simp+

lemma score_of_count:
  "fmul (fdiv 0 7) 100 = 0"
  "fmul (fdiv 1 7) 100 = 2010535547933257 / 140737488355328"
  "fmul (fdiv 2 7) 100 = 2010535547933257 / 70368744177664"
  "fmul (fdiv 3 7) 100 = 6031606643799771 / 140737488355328"
  "fmul (fdiv 4 7) 100 = 2010535547933257 / 35184372088832"
  "fmul (fdiv 5 7) 100 = 5026338869833143 / 70368744177664"
  "fmul (fdiv 6 7) 100 = 6031606643799771 / 70368744177664"
  "fmul (fdiv 7 7) 100 = 100"
  by (simp_all only: sevenths percentages)

lemma score_threshold:
  assumes "n \<le> 7"
  shows "70 \<le> fmul (fdiv (of_nat n) 7) 100 \<longleftrightarrow> 5 \<le> n"
proof -
  from assms consider "n = 0" | "n = 1" | "n = 2" | "n = 3" | "n = 4" | "n = 5" | "n = 6" | "n = 7"
    by linarith
  then show ?thesis
    by cases (simp_all add: score_of_count)
qed

lemma calculate_score_seven:
  "calculate_score [a, b, c, d, e, f, g] =
     fmul (fdiv (of_nat (length (filter (\<lambda>b. b) [a, b, c, d, e, f, g]))) 7) 100"
  by (simp add: calculate_score_def)

lemma validate_draft_fields:
  "qc_has_metric (validate_draft draft) = check_has_metric (ed_subject draft @ py '' '' @ ed_body draft)"
  "qc_has_project_link (validate_draft draft) = check_has_link (ed_subject draft @ py '' '' @ ed_body draft)"
  "qc_has_company_hook (validate_draft draft) = check_company_hook draft"
  "qc_has_clear_cta (validate_draft draft) = check_has_cta (ed_subject draft @ py '' '' @ ed_body draft)"
  "qc_under_word_limit (validate_draft draft) = check_word_limit (ed_body draft) 180"
  "qc_no_emojis (validate_draft draft) = check_no_emojis (ed_subject draft @ py '' '' @ ed_body draft)"
  "qc_no_bullet_dashes (validate_draft draft) = check_no_bullets (ed_body draft)"
  "qc_score (validate_draft draft) =
     calculate_score [check_has_metric (ed_subject draft @ py '' '' @ ed_body draft),
       check_has_link (ed_subject draft @ py '' '' @ ed_body draft),
       check_company_hook draft,
       check_has_cta (ed_subject draft @ py '' '' @ ed_body draft),
       check_word_limit (ed_body draft) 180,
       check_no_emojis (ed_subject draft @ py '' '' @ ed_body draft),
       check_no_bullets (ed_body draft)]"
  "qc_passed (validate_draft draft) = check_passed (qc_score (validate_draft draft))"
  by (simp_all add: validate_draft_def QualityCheck_def Let_def)

text \<open>
  Claim C1. For every draft, the score that \<open>validate_draft\<close> returns is the number of
  true checks among the seven, divided by 7 and multiplied by 100 (in float arithmetic),
  and \<open>passed\<close> holds exactly when the score is at least 70; so a draft with at least
  five true checks passes and a draft with at most four does not.
\<close>

theorem validate_draft_score_passed:
  "let q = validate_draft draft;
       n = length (filter (\<lambda>b. b)
             [qc_has_metric q, qc_has_project_link q, qc_has_company_hook q, qc_has_clear_cta q,
              qc_under_word_limit q, qc_no_emojis q, qc_no_bullet_dashes q])
   in qc_score q = fmul (fdiv (of_nat n) 7) 100 \<and>
      (qc_passed q \<longleftrightarrow> 70 \<le> qc_score q) \<and>
      (5 \<le> n \<longrightarrow> qc_passed q) \<and>
      (n \<le> 4 \<longrightarrow> \<not> qc_passed q)"
proof -
  define q where "q = validate_draft draft"
  define n where "n = length (filter (\<lambda>b. b)
             [qc_has_metric q, qc_has_project_link q, qc_has_company_hook q, qc_has_clear_cta q,
              qc_under_word_limit q, qc_no_emojis q, qc_no_bullet_dashes q])"
  have n7: "n \<le> 7"
    unfolding n_def by (rule order_trans[OF length_filter_le]) simp
  have s: "qc_score q = fmul (fdiv (of_nat n) 7) 100"
    unfolding q_def n_def validate_draft_fields(1-8) by (rule calculate_score_seven)
  have p: "qc_passed q \<longleftrightarrow> 70 \<le> qc_score q"
    unfolding q_def by (simp add: validate_draft_fields(9) check_passed_def)
  from score_threshold[OF n7] s p have "qc_passed q \<longleftrightarrow> 5 \<le> n" by simp
  with s p show ?thesis
    unfolding Let_def q_def[symmetric] n_def[symmetric] by auto
qed

lemma EmailDraft_sel:
  "ed_subject (EmailDraft s b t c) = s" "ed_body (EmailDraft s b t c) = b"
  "ed_job_title (EmailDraft s b t c) = t" "ed_company (EmailDraft s b t c) = c"
  by (simp_all add: EmailDraft_def)

lemma check_company_hook_subject:
  "check_company_hook (EmailDraft s b t c) = check_company_hook (EmailDraft [] b t c)"
  by (simp add: check_company_hook_def EmailDraft_sel)

lemma scenario_checks:
  "check_has_metric (py ''Test'' @ py '' '' @ scenario_body) = True"
  "check_has_link (py ''Test'' @ py '' '' @ scenario_body) = False"
  "check_company_hook (EmailDraft [] scenario_body (py ''Senior Engineer'') (py ''Acme'')) = False"
  "check_has_cta (py ''Test'' @ py '' '' @ scenario_body) = True"
  "check_word_limit scenario_body 180 = True"
  "check_no_emojis (py ''Test'' @ py '' '' @ scenario_body) = True"
  "check_no_bullets scenario_body = True"
  by code_simp+

lemma scenario_fields:
  "qc_has_metric (validate_draft (scenario_draft (py ''Test''))) = True"
  "qc_has_project_link (validate_draft (scenario_draft (py ''Test''))) = False"
  "qc_has_company_hook (validate_draft (scenario_draft subject)) = False"
  "qc_has_clear_cta (validate_draft (scenario_draft (py ''Test''))) = True"
  "qc_under_word_limit (validate_draft (scenario_draft (py ''Test''))) = True"
  "qc_no_emojis (validate_draft (scenario_draft (py ''Test''))) = True"
  "qc_no_bullet_dashes (validate_draft (scenario_draft (py ''Test''))) = True"
  unfolding validate_draft_fields scenario_draft_def EmailDraft_sel
  by (simp_all only: scenario_checks check_company_hook_subject[of subject])

lemma plain_checks:
  "check_has_metric (py ''Test'' @ py '' '' @ py ''I think I would be a great fit for your company.'') = False"
  "check_has_link (py ''Test'' @ py '' '' @ py ''I think I would be a great fit for your company.'') = False"
  "check_company_hook plain_draft = False"
  "check_has_cta (py ''Test'' @ py '' '' @ py ''I think I would be a great fit for your company.'') = False"
  "check_word_limit (py ''I think I would be a great fit for your company.'') 180 = True"
  "check_no_emojis (py ''Test'' @ py '' '' @ py ''I think I would be a great fit for your company.'') = True"
  "check_no_bullets (py ''I think I would be a great fit for your company.'') = True"
  by code_simp+

lemma plain_fields:
  "qc_has_metric (validate_draft plain_draft) = False"
  "qc_has_project_link (validate_draft plain_draft) = False"
  "qc_has_company_hook (validate_draft plain_draft) = False"
  "qc_has_clear_cta (validate_draft plain_draft) = False"
  "qc_under_word_limit (validate_draft plain_draft) = True"
  "qc_no_emojis (validate_draft plain_draft) = True"
  "qc_no_bullet_dashes (validate_draft plain_draft) = True"
  unfolding validate_draft_fields plain_checks(3)
  unfolding plain_draft_def EmailDraft_sel
  by (simp_all only: plain_checks)

theorem validate_draft_score_passed_witness:
  "(5::nat) \<le> 5 \<and> qc_passed (validate_draft (scenario_draft (py ''Test''))) \<and>
   qc_score (validate_draft (scenario_draft (py ''Test''))) = fmul (fdiv 5 7) 100 \<and>
   (3::nat) \<le> 4 \<and> \<not> qc_passed (validate_draft plain_draft) \<and>
   qc_score (validate_draft plain_draft) = fmul (fdiv 3 7) 100"
  using validate_draft_score_passed[of "scenario_draft (py ''Test'')"]
        validate_draft_score_passed[of plain_draft]
  by (simp add: Let_def scenario_fields plain_fields score_of_count)

text \<open>
  Claim C6, as amended. For the scenario draft (subject \<open>Test\<close>), \<open>has_metric\<close>,
  \<open>has_clear_cta\<close>, \<open>under_word_limit\<close>, \<open>no_emojis\<close> and \<open>no_bullet_dashes\<close> are
  true and \<open>has_company_hook\<close> is false, since the body names neither the company nor
  a word of the job title; hence the score is at most 6/7 of 100, below 100, and the
  draft passes. The company hook is false whatever the subject is.
\<close>

theorem scenario_checks_amended:
  "(let q = validate_draft (scenario_draft (py ''Test''))
    in qc_has_metric q \<and> qc_has_clear_cta q \<and> qc_under_word_limit q \<and> qc_no_emojis q \<and>
       qc_no_bullet_dashes q \<and> \<not> qc_has_company_hook q \<and>
       qc_score q \<le> fmul (fdiv 6 7) 100 \<and> qc_score q < 100 \<and> qc_passed q) \<and>
   \<not> qc_has_company_hook (validate_draft (scenario_draft subject))"
proof -
  have s: "qc_score (validate_draft (scenario_draft (py ''Test''))) = fmul (fdiv 5 7) 100"
    unfolding validate_draft_fields(8)[of "scenario_draft (py ''Test'')", folded validate_draft_fields(1-7)]
    by (simp add: scenario_fields calculate_score_def)
  have p: "qc_passed (validate_draft (scenario_draft (py ''Test'')))"
    unfolding validate_draft_fields(9) s by (simp add: check_passed_def score_of_count)
  from s p show ?thesis
    by (simp add: Let_def scenario_fields score_of_count)
qed

text \<open>
  The claim as stated fails: on the scenario draft the company hook and the project
  link are both false (the body has no \<open>http://\<close> or \<open>https://\<close> URL), and the score
  is 5/7 of 100.
\<close>

theorem scenario_all_true_counterexample:
  "\<not> qc_has_company_hook (validate_draft (scenario_draft (py ''Test''))) \<and>
   \<not> qc_has_project_link (validate_draft (scenario_draft (py ''Test''))) \<and>
   qc_score (validate_draft (scenario_draft (py ''Test''))) = fmul (fdiv 5 7) 100 \<and>
   fmul (fdiv 5 7) 100 \<noteq> 100"
proof -
  have s: "qc_score (validate_draft (scenario_draft (py ''Test''))) = fmul (fdiv 5 7) 100"
    unfolding validate_draft_fields(8)[of "scenario_draft (py ''Test'')", folded validate_draft_fields(1-7)]
    by (simp add: scenario_fields calculate_score_def)
  then show ?thesis
    by (simp add: scenario_fields score_of_count)
qed

subsection \<open>Extraction of the JSON object\<close>

lemma find_from_first:
  "a \<notin> set pre \<Longrightarrow> find_from [a] (pre @ a # rest) i = Some (i + length pre)"
  by (induction pre arbitrary: i) (auto simp: startswith_def)

lemma find_from_absent: "a \<notin> set s \<Longrightarrow> find_from [a] s i = None"
  by (induction s arbitrary: i) (auto simp: startswith_def)

lemma find_from_Some:
  "find_from [a] s i = Some k \<Longrightarrow> \<exists>pre rest. s = pre @ a # rest \<and> a \<notin> set pre \<and> k = i + length pre"
proof (induction s arbitrary: i)
  case Nil
  then show ?case by simp
next
  case (Cons c cs)
  show ?case
  proof (cases "c = a")
    case True
    with Cons.prems have "k = i" by (simp add: startswith_def)
    with True have "c # cs = [] @ a # cs \<and> a \<notin> set [] \<and> k = i + length ([] :: str)" by simp
    then show ?thesis by blast
  next
    case False
    with Cons.prems have "find_from [a] cs (i + 1) = Some k" by (simp add: startswith_def)
    from Cons.IH[OF this] obtain pre rest where
      "cs = pre @ a # rest" "a \<notin> set pre" "k = i + 1 + length pre" by blast
    with False have "c # cs = (c # pre) @ a # rest \<and> a \<notin> set (c # pre) \<and> k = i + length (c # pre)"
      by simp
    then show ?thesis by blast
  qed
qed

lemma depth_Nil: "depth [] = 0"
  by (simp add: depth_def)

lemma depth_Cons:
  "depth (x # xs) = (if x = 123 then 1 else if x = 125 then - 1 else 0) + depth xs"
  by (simp add: depth_def)

lemma brace_scan_end: "brace_scan a (length a) bc = None"
  by (subst brace_scan.simps) simp

lemma brace_scan_step:
  "brace_scan (a @ x # xs) (length a) bc =
     (if x = 123 then brace_scan ((a @ [x]) @ xs) (length (a @ [x])) (bc + 1)
      else if x = 125
      then (if bc - 1 = 0 then Some (length a + 1)
            else brace_scan ((a @ [x]) @ xs) (length (a @ [x])) (bc - 1))
      else brace_scan ((a @ [x]) @ xs) (length (a @ [x])) bc)"
  by (subst brace_scan.simps) simp

lemma brace_scan_found:
  "0 < bc \<Longrightarrow> obj \<noteq> [] \<Longrightarrow> bc + depth obj = 0 \<Longrightarrow>
   (\<forall>k. 0 < k \<and> k < length obj \<longrightarrow> bc + depth (take k obj) \<noteq> 0) \<Longrightarrow>
   brace_scan (a @ obj @ post) (length a) bc = Some (length a + length obj)"
proof (induction obj arbitrary: a bc)
  case Nil
  then show ?case by simp
next
  case (Cons x obj)
  show ?case
  proof (cases "obj = []")
    case True
    with Cons.prems have "x = 125" "bc = 1"
      by (auto simp: depth_Cons depth_Nil split: if_splits)
    with True show ?thesis
      using brace_scan_step[of a x post bc] by simp
  next
    case False
    define bc' where "bc' = bc + depth [x]"
    from False have "0 < (1::nat) \<and> 1 < length (x # obj)" by simp
    with Cons.prems(4) have "bc + depth (take 1 (x # obj)) \<noteq> 0" by blast
    then have nz: "bc' \<noteq> 0" by (simp add: bc'_def)
    with Cons.prems(1) have pos: "0 < bc'"
      by (auto simp: bc'_def depth_Cons depth_Nil split: if_splits)
    have tot: "bc' + depth obj = 0"
      using Cons.prems(3) by (simp add: bc'_def depth_Cons depth_Nil)
    have pre: "\<forall>k. 0 < k \<and> k < length obj \<longrightarrow> bc' + depth (take k obj) \<noteq> 0"
    proof (intro allI impI)
      fix k assume k: "0 < k \<and> k < length obj"
      then have "0 < Suc k \<and> Suc k < length (x # obj)" by simp
      with Cons.prems(4) have "bc + depth (take (Suc k) (x # obj)) \<noteq> 0" by blast
      then show "bc' + depth (take k obj) \<noteq> 0"
        by (simp add: bc'_def depth_Cons depth_Nil)
    qed
    from Cons.IH[OF pos False tot pre, of "a @ [x]"]
    have ih: "brace_scan ((a @ [x]) @ obj @ post) (length (a @ [x])) bc' = Some (length a + length (x # obj))"
      by simp
    show ?thesis
      using ih nz brace_scan_step[of a x "obj @ post" bc]
      by (auto simp: bc'_def depth_Cons depth_Nil split: if_splits)
  qed
qed

lemma brace_scan_none:
  "0 < bc \<Longrightarrow> (\<forall>k. 0 < k \<and> k \<le> length xs \<longrightarrow> bc + depth (take k xs) \<noteq> 0) \<Longrightarrow>
   brace_scan (a @ xs) (length a) bc = None"
proof (induction xs arbitrary: a bc)
  case Nil
  then show ?case by (simp add: brace_scan_end)
next
  case (Cons x xs)
  define bc' where "bc' = bc + depth [x]"
  have "0 < (1::nat) \<and> 1 \<le> length (x # xs)" by simp
  with Cons.prems(2) have "bc + depth (take 1 (x # xs)) \<noteq> 0" by blast
  then have nz: "bc' \<noteq> 0" by (simp add: bc'_def)
  with Cons.prems(1) have pos: "0 < bc'"
    by (auto simp: bc'_def depth_Cons depth_Nil split: if_splits)
  have pre: "\<forall>k. 0 < k \<and> k \<le> length xs \<longrightarrow> bc' + depth (take k xs) \<noteq> 0"
  proof (intro allI impI)
    fix k assume k: "0 < k \<and> k \<le> length xs"
    then have "0 < Suc k \<and> Suc k \<le> length (x # xs)" by simp
    with Cons.prems(2) have "bc + depth (take (Suc k) (x # xs)) \<noteq> 0" by blast
    then show "bc' + depth (take k xs) \<noteq> 0"
      by (simp add: bc'_def depth_Cons depth_Nil)
  qed
  from Cons.IH[OF pos pre, of "a @ [x]"]
  have ih: "brace_scan ((a @ [x]) @ xs) (length (a @ [x])) bc' = None" .
  show ?case
    using ih nz brace_scan_step[of a x xs bc]
    by (auto simp: bc'_def depth_Cons depth_Nil split: if_splits)
qed

lemma brace_scan_sound:
  "brace_scan (a @ xs) (length a) bc = Some e \<Longrightarrow> 0 < bc \<Longrightarrow>
   \<exists>n. e = length a + n \<and> 0 < n \<and> n \<le> length xs \<and> bc + depth (take n xs) = 0 \<and>
       (\<forall>k. 0 < k \<and> k < n \<longrightarrow> bc + depth (take k xs) \<noteq> 0)"
proof (induction xs arbitrary: a bc)
  case Nil
  then show ?case by (simp add: brace_scan_end)
next
  case (Cons x xs)
  show ?case
  proof (cases "x = 125 \<and> bc - 1 = 0")
    case True
    with Cons.prems have "e = length a + 1"
      using brace_scan_step[of a x xs bc] by simp
    with True have "e = length a + 1 \<and> 0 < (1::nat) \<and> 1 \<le> length (x # xs) \<and>
        bc + depth (take 1 (x # xs)) = 0 \<and>
        (\<forall>k. 0 < k \<and> k < 1 \<longrightarrow> bc + depth (take k (x # xs)) \<noteq> 0)"
      by (simp add: depth_Cons depth_Nil)
    then show ?thesis by blast
  next
    case False
    define bc' where "bc' = bc + depth [x]"
    from False Cons.prems(2) have pos: "0 < bc'"
      by (auto simp: bc'_def depth_Cons depth_Nil split: if_splits)
    from False Cons.prems(1) have "brace_scan ((a @ [x]) @ xs) (length (a @ [x])) bc' = Some e"
      using brace_scan_step[of a x xs bc]
      by (auto simp: bc'_def depth_Cons depth_Nil split: if_splits)
    from Cons.IH[OF this pos] obtain n where n: "e = length (a @ [x]) + n" "0 < n" "n \<le> length xs"
      "bc' + depth (take n xs) = 0" "\<forall>k. 0 < k \<and> k < n \<longrightarrow> bc' + depth (take k xs) \<noteq> 0"
      by blast
    have "\<forall>k. 0 < k \<and> k < Suc n \<longrightarrow> bc + depth (take k (x # xs)) \<noteq> 0"
    proof (intro allI impI)
      fix k assume k: "0 < k \<and> k < Suc n"
      then obtain j where j: "k = Suc j" by (cases k) auto
      show "bc + depth (take k (x # xs)) \<noteq> 0"
      proof (cases "j = 0")
        case True
        with pos j show ?thesis by (simp add: bc'_def depth_Cons depth_Nil)
      next
        case False
        with k j n(5) have "bc' + depth (take j xs) \<noteq> 0" by simp
        with j show ?thesis by (simp add: bc'_def depth_Cons depth_Nil)
      qed
    qed
    with n have "e = length a + Suc n \<and> 0 < Suc n \<and> Suc n \<le> length (x # xs) \<and>
        bc + depth (take (Suc n) (x # xs)) = 0 \<and>
        (\<forall>k. 0 < k \<and> k < Suc n \<longrightarrow> bc + depth (take k (x # xs)) \<noteq> 0)"
      by (simp add: bc'_def depth_Cons depth_Nil)
    then show ?thesis by blast
  qed
qed


lemma balanced_object_iff:
  "balanced_object obj \<longleftrightarrow>
     obj \<noteq> [] \<and> hd obj = 123 \<and> depth obj = 0 \<and>
     (\<forall>k. 0 < k \<and> k < length obj \<longrightarrow> depth (take k obj) \<noteq> 0)"
  by (auto simp: balanced_object_def list_all_iff)

lemma never_closed_iff:
  "never_closed rest \<longleftrightarrow>
     rest \<noteq> [] \<and> hd rest = 123 \<and>
     (\<forall>k. 0 < k \<and> k \<le> length rest \<longrightarrow> depth (take k rest) \<noteq> 0)"
  unfolding never_closed_def list_all_iff set_upt
  by (auto simp: less_Suc_eq_le Suc_le_eq)

lemma slice_middle: "slice (length pre) (length pre + length obj) (pre @ obj @ post) = obj"
  by (simp add: slice_def)

lemma extract_balanced:
  assumes "123 \<notin> set pre" and "balanced_object obj"
  shows "find [123] (pre @ obj @ post) = Some (length pre)"
    and "brace_scan (pre @ obj @ post) (length pre) 0 = Some (length pre + length obj)"
proof -
  from assms(2) obtain obj1 where obj: "obj = 123 # obj1"
    by (cases obj) (auto simp: balanced_object_iff)
  from assms(1) show "find [123] (pre @ obj @ post) = Some (length pre)"
    using find_from_first[of 123 pre "obj1 @ post" 0] by (simp add: find_def obj)
  from assms(2) have d: "depth obj = 0"
    and p: "\<forall>k. 0 < k \<and> k < length obj \<longrightarrow> depth (take k obj) \<noteq> 0"
    by (simp_all add: balanced_object_iff)
  from d have ne: "obj1 \<noteq> []" by (auto simp: obj depth_Cons depth_Nil)
  from d have tot: "1 + depth obj1 = 0" by (simp add: obj depth_Cons)
  have pre1: "\<forall>k. 0 < k \<and> k < length obj1 \<longrightarrow> 1 + depth (take k obj1) \<noteq> 0"
  proof (intro allI impI)
    fix k assume "0 < k \<and> k < length obj1"
    then have "0 < Suc k \<and> Suc k < length obj" by (simp add: obj)
    with p have "depth (take (Suc k) obj) \<noteq> 0" by blast
    then show "1 + depth (take k obj1) \<noteq> 0" by (simp add: obj depth_Cons)
  qed
  from brace_scan_found[of 1 obj1 "pre @ [123]" post, OF _ ne tot pre1]
  have "brace_scan ((pre @ [123]) @ obj1 @ post) (length (pre @ [123])) 1
          = Some (length pre + length obj)"
    by (simp add: obj)
  then show "brace_scan (pre @ obj @ post) (length pre) 0 = Some (length pre + length obj)"
    using brace_scan_step[of pre 123 "obj1 @ post" 0] by (simp add: obj)
qed

lemma extract_unclosed:
  assumes "123 \<notin> set pre" and "never_closed rest"
  shows "find [123] (pre @ rest) = Some (length pre)"
    and "brace_scan (pre @ rest) (length pre) 0 = None"
proof -
  from assms(2) obtain rest1 where rest: "rest = 123 # rest1"
    by (cases rest) (auto simp: never_closed_iff)
  from assms(1) show "find [123] (pre @ rest) = Some (length pre)"
    using find_from_first[of 123 pre rest1 0] by (simp add: find_def rest)
  from assms(2) have p: "\<forall>k. 0 < k \<and> k \<le> length rest \<longrightarrow> depth (take k rest) \<noteq> 0"
    by (simp add: never_closed_iff)
  have pre1: "\<forall>k. 0 < k \<and> k \<le> length rest1 \<longrightarrow> 1 + depth (take k rest1) \<noteq> 0"
  proof (intro allI impI)
    fix k assume "0 < k \<and> k \<le> length rest1"
    then have "0 < Suc k \<and> Suc k \<le> length rest" by (simp add: rest)
    with p have "depth (take (Suc k) rest) \<noteq> 0" by blast
    then show "1 + depth (take k rest1) \<noteq> 0" by (simp add: rest depth_Cons)
  qed
  from brace_scan_none[of 1 rest1 "pre @ [123]", OF _ pre1]
  have "brace_scan ((pre @ [123]) @ rest1) (length (pre @ [123])) 1 = None" by simp
  then show "brace_scan (pre @ rest) (length pre) 0 = None"
    using brace_scan_step[of pre 123 rest1 0] by (simp add: rest)
qed

lemma extract_sound:
  assumes "find [123] response = Some start" and "brace_scan response start 0 = Some e"
  shows "balanced_object (slice start e response) \<and>
         (\<exists>p q. response = p @ slice start e response @ q \<and> 123 \<notin> set p)"
proof -
  from assms(1) obtain pre rest where r: "response = pre @ 123 # rest" "123 \<notin> set pre"
      "start = length pre"
    using find_from_Some[of 123 response 0 start] by (auto simp: find_def)
  from assms(2) have "brace_scan ((pre @ [123]) @ rest) (length (pre @ [123])) 1 = Some e"
    using brace_scan_step[of pre 123 rest 0] by (simp add: r)
  from brace_scan_sound[OF this] obtain n where n: "e = length (pre @ [123]) + n" "0 < n"
      "n \<le> length rest" "1 + depth (take n rest) = 0"
      "\<forall>k. 0 < k \<and> k < n \<longrightarrow> 1 + depth (take k rest) \<noteq> 0"
    by auto
  have sl: "slice start e response = 123 # take n rest"
    using n(1) by (simp add: slice_def r)
  have pref: "\<forall>k. 0 < k \<and> k < length (123 # take n rest)
                \<longrightarrow> depth (take k (123 # take n rest)) \<noteq> 0"
  proof (intro allI impI)
    fix k assume k: "0 < k \<and> k < length (123 # take n rest)"
    then obtain j where j: "k = Suc j" by (cases k) auto
    show "depth (take k (123 # take n rest)) \<noteq> 0"
    proof (cases "j = 0")
      case True
      with j show ?thesis by (simp add: depth_Cons depth_Nil)
    next
      case False
      with k j n(3) have jn: "0 < j \<and> j < n" by simp
      with n(5) have "1 + depth (take j rest) \<noteq> 0" by blast
      moreover from jn have "take j (take n rest) = take j rest" by (simp add: min_def)
      ultimately show ?thesis using j by (simp add: depth_Cons)
    qed
  qed
  have b: "balanced_object (123 # take n rest)"
    unfolding balanced_object_iff using n(4) pref by (simp add: depth_Cons)
  have "response = pre @ (123 # take n rest) @ drop n rest"
    by (simp add: r)
  with b r(2) show ?thesis unfolding sl by blast
qed

lemma clean_of_prepared:
  assumes "prepare_response response = pre @ obj @ post"
    and "123 \<notin> set pre"
    and "balanced_object obj"
  shows "clean_json_response response = Inr obj"
  unfolding clean_json_response_def Let_def assms(1)
  by (simp add: extract_balanced[OF assms(2,3)] slice_middle)

text \<open>
  Stripping white space and preambles keeps a part of the response that starts with a
  brace or a backquote and does not end in white space: it removes a beginning of what
  comes before that part and an end of what comes after it.
\<close>

lemma startswith_prefix: "startswith s p \<longleftrightarrow> prefix p s"
proof
  assume "startswith s p"
  then have "s = p @ drop (length p) s"
    using append_take_drop_id[of "length p" s] by (simp add: startswith_def)
  then show "prefix p s" by (metis prefixI)
next
  assume "prefix p s"
  then show "startswith s p" by (auto simp: prefix_def startswith_def)
qed

lemma str_in_sublist: "str_in sub s \<longleftrightarrow> sublist sub s"
  by (induction s) (simp_all add: startswith_prefix sublist_Cons_right)

lemma dropWhile_keeps:
  "core \<noteq> [] \<Longrightarrow> \<not> P (hd core) \<Longrightarrow>
   \<exists>pre'. dropWhile P (pre @ core @ post) = pre' @ core @ post \<and> suffix pre' pre"
proof (induction pre)
  case Nil
  then have "dropWhile P (core @ post) = core @ post" by (cases core) auto
  then show ?case by simp
next
  case (Cons a pre)
  show ?case
  proof (cases "P a")
    case True
    from Cons.IH[OF Cons.prems] obtain pre' where
      "dropWhile P (pre @ core @ post) = pre' @ core @ post" "suffix pre' pre" by blast
    with True have "dropWhile P ((a # pre) @ core @ post) = pre' @ core @ post \<and>
        suffix pre' (a # pre)" by (simp add: suffix_ConsI)
    then show ?thesis by blast
  next
    case False
    then have "dropWhile P ((a # pre) @ core @ post) = (a # pre) @ core @ post \<and>
        suffix (a # pre) (a # pre)" by simp
    then show ?thesis by blast
  qed
qed

lemma strip_keeps:
  assumes "core \<noteq> []" and "\<not> isspace (hd core)" and "\<not> isspace (last core)"
  shows "\<exists>pre' post'. strip (pre @ core @ post) = pre' @ core @ post' \<and>
           suffix pre' pre \<and> prefix post' post"
proof -
  from dropWhile_keeps[where P = isspace and core = core and pre = pre and post = post,
      OF assms(1,2)] obtain pre' where
    l: "lstrip (pre @ core @ post) = pre' @ core @ post" "suffix pre' pre"
    unfolding lstrip_def by blast
  from assms have rc: "rev core \<noteq> []" "\<not> isspace (hd (rev core))"
    by (simp_all add: hd_rev)
  from dropWhile_keeps[where P = isspace and core = "rev core" and pre = "rev post"
      and post = "rev pre'", OF rc] obtain q where
    q: "dropWhile isspace (rev post @ rev core @ rev pre') = q @ rev core @ rev pre'"
       "suffix q (rev post)" by blast
  from q(2) have p: "prefix (rev q) post" by (simp add: suffix_to_prefix)
  have "rstrip (pre' @ core @ post) = pre' @ core @ rev q"
    unfolding rstrip_def using q(1) by simp
  with l p have "strip (pre @ core @ post) = pre' @ core @ rev q \<and>
      suffix pre' pre \<and> prefix (rev q) post"
    by (simp add: strip_def)
  then show ?thesis by blast
qed

lemma lower_cp_fixed: "lower_cp 123 = 123" "lower_cp 96 = 96"
  by (simp_all add: lower_cp_def isupper_def)

lemma prefix_before_core:
  assumes "startswith (lower (pre @ core @ post)) p" and "core \<noteq> []" and "hd core = c"
    and "lower_cp c = c" and "c \<notin> set p"
  shows "length p \<le> length pre"
proof (rule ccontr)
  assume "\<not> length p \<le> length pre"
  then have lt: "length pre < length p" by simp
  from assms(1) have t: "take (length p) (lower (pre @ core @ post)) = p"
    by (simp add: startswith_def)
  from arg_cong[OF t, of length] have "length p \<le> length (lower (pre @ core @ post))"
    by simp
  with lt have "take (length p) (lower (pre @ core @ post)) ! length pre =
      lower (pre @ core @ post) ! length pre" by simp
  also from assms(2,3) have "\<dots> = lower_cp c"
    by (cases core) (simp_all add: lower_def nth_append)
  finally have "p ! length pre = c" using t assms(4) by simp
  with lt have "c \<in> set p" by (metis nth_mem)
  with assms(5) show False by simp
qed

lemma drop_prefix_keeps:
  assumes "startswith (lower (pre @ core @ post)) p" and "core \<noteq> []" and "hd core = c"
    and "lower_cp c = c" and "c \<notin> set p"
  shows "drop (length p) (pre @ core @ post) = drop (length p) pre @ core @ post"
  using prefix_before_core[OF assms] by simp

lemma strip_preambles_step_keeps:
  assumes "core \<noteq> []" and "hd core = c" and "lower_cp c = c" and "c \<notin> set p"
    and "\<not> isspace (hd core)" and "\<not> isspace (last core)"
  shows "\<exists>pre' post'.
     (if startswith (lower (pre @ core @ post)) p
      then strip (drop (length p) (pre @ core @ post)) else pre @ core @ post)
       = pre' @ core @ post' \<and> suffix pre' pre \<and> prefix post' post"
proof (cases "startswith (lower (pre @ core @ post)) p")
  case True
  from drop_prefix_keeps[OF True assms(1-4)]
  have d: "drop (length p) (pre @ core @ post) = drop (length p) pre @ core @ post" .
  from strip_keeps[OF assms(1,5,6), of "drop (length p) pre" post] obtain pre' post' where
    k: "strip (drop (length p) pre @ core @ post) = pre' @ core @ post'"
    "suffix pre' (drop (length p) pre)" "prefix post' post" by blast
  from k(2) suffix_drop[of "length p" pre] have sub: "suffix pre' pre"
    by (rule suffix_order.trans)
  have "(if startswith (lower (pre @ core @ post)) p
      then strip (drop (length p) (pre @ core @ post)) else pre @ core @ post)
       = pre' @ core @ post'"
    by (simp only: True if_True d k(1))
  with sub k(3) show ?thesis by blast
next
  case False
  then have "(if startswith (lower (pre @ core @ post)) p
      then strip (drop (length p) (pre @ core @ post)) else pre @ core @ post)
       = pre @ core @ post \<and> suffix pre pre \<and> prefix post post" by simp
  then show ?thesis by blast
qed

lemma foldl_preambles_keeps:
  assumes "core \<noteq> []" and "hd core = c" and "lower_cp c = c"
    and "\<not> isspace (hd core)" and "\<not> isspace (last core)"
  shows "\<forall>p \<in> set ps. c \<notin> set p \<Longrightarrow>
     \<exists>pre' post'.
       foldl (\<lambda>response p. if startswith (lower response) p
                            then strip (drop (length p) response) else response)
         (pre @ core @ post) ps = pre' @ core @ post' \<and>
       suffix pre' pre \<and> prefix post' post"
proof (induction ps arbitrary: pre post)
  case Nil
  have "foldl (\<lambda>response p. if startswith (lower response) p
                            then strip (drop (length p) response) else response)
         (pre @ core @ post) [] = pre @ core @ post \<and> suffix pre pre \<and> prefix post post"
    by simp
  then show ?case by blast
next
  case (Cons p ps)
  then have cp: "c \<notin> set p" and rest: "\<forall>p \<in> set ps. c \<notin> set p" by simp_all
  from strip_preambles_step_keeps[OF assms(1-3) cp assms(4,5), of pre post]
  obtain pre1 post1 where s:
    "(if startswith (lower (pre @ core @ post)) p
      then strip (drop (length p) (pre @ core @ post)) else pre @ core @ post)
       = pre1 @ core @ post1" "suffix pre1 pre" "prefix post1 post" by blast
  from Cons.IH[OF rest, of pre1 post1] obtain pre' post' where k:
    "foldl (\<lambda>response p. if startswith (lower response) p
                            then strip (drop (length p) response) else response)
         (pre1 @ core @ post1) ps = pre' @ core @ post'"
    "suffix pre' pre1" "prefix post' post1" by blast
  from k(2) s(2) have 1: "suffix pre' pre" by (rule suffix_order.trans)
  from k(3) s(3) have 2: "prefix post' post" by (rule prefix_order.trans)
  have "foldl (\<lambda>response p. if startswith (lower response) p
                            then strip (drop (length p) response) else response)
         (pre @ core @ post) (p # ps) = pre' @ core @ post'"
    using s(1) k(1) by (simp del: append_assoc)
  with 1 2 show ?case by blast
qed

lemma preambles_chars: "\<forall>p \<in> set preambles. 123 \<notin> set p" "\<forall>p \<in> set preambles. 96 \<notin> set p"
  by (simp_all add: preambles_def py_def)

lemma not_space: "\<not> isspace 123" "\<not> isspace 125" "\<not> isspace 96"
  by (simp_all add: isspace_def)

lemma stripped_keeps:
  assumes "core \<noteq> []" and "hd core = c" and "c = 123 \<or> c = 96" and "\<not> isspace (last core)"
  shows "\<exists>pre' post'. strip_preambles (strip (pre @ core @ post)) = pre' @ core @ post' \<and>
           suffix pre' pre \<and> prefix post' post"
proof -
  from assms(2,3) have ns: "\<not> isspace (hd core)" using not_space by auto
  from assms(3) have lc: "lower_cp c = c" using lower_cp_fixed by auto
  from assms(3) have pc: "\<forall>p \<in> set preambles. c \<notin> set p" using preambles_chars by auto
  from strip_keeps[OF assms(1) ns assms(4), of pre post] obtain pre1 post1 where s:
    "strip (pre @ core @ post) = pre1 @ core @ post1" "suffix pre1 pre" "prefix post1 post"
    by blast
  from foldl_preambles_keeps[OF assms(1,2) lc ns assms(4) pc, of pre1 post1] obtain pre' post' where k:
    "strip_preambles (pre1 @ core @ post1) = pre' @ core @ post'"
    "suffix pre' pre1" "prefix post' post1"
    unfolding strip_preambles_def by blast
  from k(2) s(2) have 1: "suffix pre' pre" by (rule suffix_order.trans)
  from k(3) s(3) have 2: "prefix post' post" by (rule prefix_order.trans)
  from s(1) k(1) have "strip_preambles (strip (pre @ core @ post)) = pre' @ core @ post'"
    by simp
  with 1 2 show ?thesis by blast
qed

lemma kept_sublist:
  assumes "suffix pre' pre" and "prefix post' post"
  shows "sublist (pre' @ core @ post') (pre @ core @ post)"
proof -
  from assms obtain x y where "pre = x @ pre'" "post = post' @ y"
    by (auto simp: suffix_def prefix_def)
  then have "pre @ core @ post = x @ (pre' @ core @ post') @ y" by simp
  then show ?thesis unfolding sublist_def by blast
qed

text \<open>
  The code fences: a response without a fence is left as it is, and between two
  fences the text after the first fence is taken, less a leading \<open>json\<close> tag. The
  first fence of \<open>a\<close> followed by a fence is that fence when \<open>a\<close> followed by two
  backquotes holds no fence.
\<close>

lemma depth_append: "depth (xs @ ys) = depth xs + depth ys"
  by (simp add: depth_def)

lemma balanced_last_brace:
  assumes "balanced_object obj"
  shows "last obj = 123 \<or> last obj = 125"
proof (rule ccontr)
  assume n: "\<not> (last obj = 123 \<or> last obj = 125)"
  from assms have ne: "obj \<noteq> []" and h: "hd obj = 123" and d: "depth obj = 0"
    and p: "\<forall>k. 0 < k \<and> k < length obj \<longrightarrow> depth (take k obj) \<noteq> 0"
    by (simp_all add: balanced_object_iff)
  from ne have o: "obj = butlast obj @ [last obj]" by simp
  from n have "depth [last obj] = 0" by (simp add: depth_Cons depth_Nil)
  with d o depth_append[of "butlast obj" "[last obj]"] have b: "depth (butlast obj) = 0" by simp
  have "butlast obj \<noteq> []"
  proof
    assume "butlast obj = []"
    with o have "obj = [last obj]" by simp
    with h n show False by (metis list.sel(1))
  qed
  then have "0 < length obj - 1 \<and> length obj - 1 < length obj" using ne by (cases obj) auto
  with p have "depth (take (length obj - 1) obj) \<noteq> 0" by blast
  with b show False by (simp add: butlast_conv_take)
qed

lemma balanced_ends:
  assumes "balanced_object obj"
  shows "obj \<noteq> []" "hd obj = 123" "\<not> isspace (last obj)"
  using assms balanced_last_brace[OF assms] not_space
  by (auto simp: balanced_object_iff)

lemma fence: "py ''```'' = [96, 96, 96]" "py ''``'' = [96, 96]"
  by (simp_all add: py_def)

lemma split_aux_once:
  "sep \<noteq> [] \<Longrightarrow> 2 \<le> length (split_aux sep cur s) \<longleftrightarrow> sublist sep s"
proof (induction sep cur s rule: split_aux.induct)
  case (1 sep cur)
  then show ?case by simp
next
  case (2 sep cur c cs)
  show ?case
  proof (cases "startswith (c # cs) sep")
    case True
    then have "sublist sep (c # cs)" by (simp add: startswith_prefix prefix_imp_sublist)
    moreover have "1 \<le> length (split_aux sep [] (drop (length sep) (c # cs)))"
      using split_aux_not_Nil[of sep "[]" "drop (length sep) (c # cs)"]
      by (cases "split_aux sep [] (drop (length sep) (c # cs))") auto
    ultimately show ?thesis using True "2.prems" by simp
  next
    case False
    with 2 show ?thesis by (simp add: sublist_Cons_right startswith_prefix)
  qed
qed

lemma split_aux_twice:
  "sep \<noteq> [] \<Longrightarrow>
   3 \<le> length (split_aux sep cur s) \<longleftrightarrow> (\<exists>a t. s = a @ sep @ t \<and> sublist sep t)"
proof (induction sep cur s rule: split_aux.induct)
  case (1 sep cur)
  then show ?case by simp
next
  case (2 sep cur c cs)
  show ?case
  proof (cases "startswith (c # cs) sep")
    case True
    then have p: "c # cs = sep @ drop (length sep) (c # cs)"
      using append_take_drop_id[of "length sep" "c # cs"] by (simp add: startswith_def)
    have l: "3 \<le> length (split_aux sep cur (c # cs)) \<longleftrightarrow>
        sublist sep (drop (length sep) (c # cs))"
      using True "2.prems" split_aux_once[OF "2.prems", of "[]" "drop (length sep) (c # cs)"]
      by simp
    show ?thesis
    proof
      assume "3 \<le> length (split_aux sep cur (c # cs))"
      with l have "sublist sep (drop (length sep) (c # cs))" by simp
      with p have "c # cs = [] @ sep @ drop (length sep) (c # cs) \<and>
          sublist sep (drop (length sep) (c # cs))" by simp
      then show "\<exists>a t. c # cs = a @ sep @ t \<and> sublist sep t" by blast
    next
      assume "\<exists>a t. c # cs = a @ sep @ t \<and> sublist sep t"
      then obtain a t where a: "c # cs = a @ sep @ t" "sublist sep t" by blast
      have "drop (length sep) (c # cs) = drop (length sep) (a @ sep) @ t"
        unfolding a(1) by simp
      then have "sublist t (drop (length sep) (c # cs))"
        using sublist_append_leftI[of t "drop (length sep) (a @ sep)"] by simp
      with a(2) have "sublist sep (drop (length sep) (c # cs))"
        by (rule sublist_order.order_trans)
      with l show "3 \<le> length (split_aux sep cur (c # cs))" by simp
    qed
  next
    case False
    then have l: "split_aux sep cur (c # cs) = split_aux sep (cur @ [c]) cs" by simp
    from False "2.prems" 2(2) have ih:
      "3 \<le> length (split_aux sep (cur @ [c]) cs) \<longleftrightarrow> (\<exists>a t. cs = a @ sep @ t \<and> sublist sep t)"
      by simp
    have "(\<exists>a t. c # cs = a @ sep @ t \<and> sublist sep t) \<longleftrightarrow>
          (\<exists>a t. cs = a @ sep @ t \<and> sublist sep t)"
    proof
      assume "\<exists>a t. c # cs = a @ sep @ t \<and> sublist sep t"
      then obtain a t where a: "c # cs = a @ sep @ t" "sublist sep t" by blast
      have "a \<noteq> []"
      proof
        assume "a = []"
        with a(1) have "prefix sep (c # cs)" by simp
        with False show False by (simp add: startswith_prefix)
      qed
      then obtain a' where "a = c # a'" using a(1) by (cases a) auto
      with a have "cs = a' @ sep @ t \<and> sublist sep t" by simp
      then show "\<exists>a t. cs = a @ sep @ t \<and> sublist sep t" by blast
    next
      assume "\<exists>a t. cs = a @ sep @ t \<and> sublist sep t"
      then obtain a t where "cs = a @ sep @ t" "sublist sep t" by blast
      then have "c # cs = (c # a) @ sep @ t \<and> sublist sep t" by simp
      then show "\<exists>a t. c # cs = a @ sep @ t \<and> sublist sep t" by blast
    qed
    with l ih show ?thesis by simp
  qed
qed

lemma few_fences_sublist:
  assumes "sublist r' r" and "length (split_sep [96, 96, 96] r) < 3"
  shows "length (split_sep [96, 96, 96] r') < 3"
proof (rule ccontr)
  assume "\<not> length (split_sep [96, 96, 96] r') < 3"
  then have "3 \<le> length (split_aux [96, 96, 96] [] r')" by (simp add: split_sep_def)
  then obtain a t where a: "r' = a @ [96, 96, 96] @ t" "sublist [96, 96, 96] t"
    using split_aux_twice[of "[96, 96, 96]" "[]" r'] by auto
  from assms(1) obtain x y where "r = x @ r' @ y" by (auto simp: sublist_def)
  with a(1) have r: "r = (x @ a) @ [96, 96, 96] @ (t @ y)" by simp
  from a(2) have "sublist [96, 96, 96] (t @ y)"
    using sublist_order.order_trans[OF _ sublist_append_rightI] by blast
  with r have "\<exists>a t. r = a @ [96, 96, 96] @ t \<and> sublist [96, 96, 96] t" by blast
  then have "3 \<le> length (split_aux [96, 96, 96] [] r)"
    using split_aux_twice[of "[96, 96, 96]" "[]" r] by simp
  with assms(2) show False by (simp add: split_sep_def)
qed

lemma strip_code_block_plain:
  "length (split_sep [96, 96, 96] s) < 3 \<Longrightarrow> strip_code_block s = s"
  by (simp add: strip_code_block_def Let_def fence)

lemma split_fence:
  "\<not> sublist [96, 96, 96] (a @ [96, 96]) \<Longrightarrow>
   split_aux [96, 96, 96] cur (a @ [96, 96, 96] @ rest) = (cur @ a) # split_aux [96, 96, 96] [] rest"
proof (induction a arbitrary: cur)
  case Nil
  then show ?case by (simp add: startswith_def)
next
  case (Cons x a)
  from Cons.prems have n: "\<not> sublist [96, 96, 96] (a @ [96, 96])"
    by (auto simp: sublist_Cons_right)
  have "\<not> startswith (x # a @ [96, 96, 96] @ rest) [96, 96, 96]"
  proof
    assume "startswith (x # a @ [96, 96, 96] @ rest) [96, 96, 96]"
    then have "prefix [96, 96, 96] ((x # a @ [96, 96]) @ (96 # rest))"
      by (simp add: startswith_prefix)
    then have "prefix [96, 96, 96] (x # a @ [96, 96]) \<or>
        (\<exists>us. [96, 96, 96] = (x # a @ [96, 96]) @ us \<and> prefix us (96 # rest))"
      by (simp only: prefix_append)
    then have "prefix [96, 96, 96] (x # a @ [96, 96])"
    proof
      assume "\<exists>us. [96, 96, 96] = (x # a @ [96, 96]) @ us \<and> prefix us (96 # rest)"
      then obtain us where u: "[96, 96, 96] = (x # a @ [96, 96]) @ us" by blast
      from arg_cong[OF u, of length] have "us = []" by simp
      with u show ?thesis by simp
    qed
    then have "sublist [96, 96, 96] ((x # a) @ [96, 96])" by (simp add: prefix_imp_sublist)
    with Cons.prems show False by simp
  qed
  with Cons.IH[OF n, of "cur @ [x]"] show ?case by simp
qed

lemma str_in_fence: "str_in [96, 96, 96] (a @ [96, 96, 96] @ rest)"
  by (induction a) (auto simp: startswith_def)

lemma strip_code_block_fenced:
  assumes "\<not> sublist [96, 96, 96] (a @ [96, 96])" and "\<not> sublist [96, 96, 96] (m @ [96, 96])"
  shows "strip_code_block (a @ [96, 96, 96] @ m @ [96, 96, 96] @ b) =
     (if startswith (lower (strip m)) (py ''json'') then strip (drop 4 (strip m)) else m)"
proof -
  obtain y ys where y: "split_aux [96, 96, 96] [] b = y # ys"
    using split_aux_not_Nil[of "[96, 96, 96]" "[]" b] by (cases "split_aux [96, 96, 96] [] b") auto
  have "split_sep [96, 96, 96] (a @ [96, 96, 96] @ m @ [96, 96, 96] @ b) = a # m # y # ys"
    unfolding split_sep_def
    using split_fence[OF assms(1), of "[]" "m @ [96, 96, 96] @ b"]
          split_fence[OF assms(2), of "[]" b] y by simp
  then show ?thesis
    using str_in_fence[of a "m @ [96, 96, 96] @ b"]
    by (simp add: strip_code_block_def fence Let_def)
qed

lemma json_tag_keeps:
  assumes "balanced_object obj" and "123 \<notin> set pre"
  shows "\<exists>p q. (if startswith (lower (strip (pre @ obj @ post))) (py ''json'')
                 then strip (drop 4 (strip (pre @ obj @ post))) else pre @ obj @ post)
                = p @ obj @ q \<and> 123 \<notin> set p"
proof (cases "startswith (lower (strip (pre @ obj @ post))) (py ''json'')")
  case False
  with assms(2) show ?thesis by auto
next
  case True
  note e = balanced_ends[OF assms(1)]
  from strip_keeps[OF e(1) _ e(3), of pre post] e(2) not_space obtain pre1 post1 where
    s: "strip (pre @ obj @ post) = pre1 @ obj @ post1" "suffix pre1 pre" by auto
  have j: "123 \<notin> set (py ''json'')" "length (py ''json'') = 4" by (simp_all add: py_def)
  from drop_prefix_keeps[OF True[unfolded s(1)] e(1,2) lower_cp_fixed(1) j(1)] j(2)
  have d: "drop 4 (pre1 @ obj @ post1) = drop 4 pre1 @ obj @ post1" by simp
  from strip_keeps[OF e(1) _ e(3), of "drop 4 pre1" post1] e(2) not_space obtain p q where
    k: "strip (drop 4 pre1 @ obj @ post1) = p @ obj @ q" "suffix p (drop 4 pre1)" by auto
  from k(2) suffix_drop[of 4 pre1] have "suffix p pre1" by (rule suffix_order.trans)
  from this s(2) have "suffix p pre" by (rule suffix_order.trans)
  with assms(2) have "123 \<notin> set p" using set_mono_suffix by blast
  moreover have "(if startswith (lower (strip (pre @ obj @ post))) (py ''json'')
                 then strip (drop 4 (strip (pre @ obj @ post))) else pre @ obj @ post)
                = p @ obj @ q"
    using True[unfolded s(1)] by (simp only: s(1) if_True d k(1))
  ultimately show ?thesis by blast
qed

lemma clean_plain:
  assumes "balanced_object obj" and "123 \<notin> set pre"
    and "length (split_sep (py ''```'') (pre @ obj @ post)) < 3"
  shows "clean_json_response (pre @ obj @ post) = Inr obj"
proof -
  note e = balanced_ends[OF assms(1)]
  from stripped_keeps[OF e(1,2) _ e(3), of pre post] obtain pre' post' where
    s: "strip_preambles (strip (pre @ obj @ post)) = pre' @ obj @ post'"
       "suffix pre' pre" "prefix post' post" by auto
  from assms(3) have "length (split_sep [96, 96, 96] (pre @ obj @ post)) < 3"
    by (simp add: fence)
  with kept_sublist[OF s(2,3)] have "length (split_sep [96, 96, 96] (pre' @ obj @ post')) < 3"
    by (rule few_fences_sublist)
  from strip_code_block_plain[OF this] s(1)
  have "prepare_response (pre @ obj @ post) = pre' @ obj @ post'"
    by (simp add: prepare_response_def)
  moreover from s(2) assms(2) have "123 \<notin> set pre'" using set_mono_suffix by blast
  ultimately show ?thesis using assms(1) by (rule clean_of_prepared)
qed

lemma clean_fenced:
  assumes "balanced_object obj" and "123 \<notin> set pre"
    and "\<not> str_in (py ''```'') (a @ py ''``'')"
    and "\<not> str_in (py ''```'') ((pre @ obj @ post) @ py ''``'')"
  shows "clean_json_response
           (a @ py ''```'' @ (pre @ obj @ post) @ py ''```'' @ b) = Inr obj"
proof -
  define m where "m = pre @ obj @ post"
  define core where "core = [96, 96, 96] @ m @ [96 :: int, 96, 96]"
  have c: "core \<noteq> []" "hd core = 96" "\<not> isspace (last core)"
    using not_space by (simp_all add: core_def)
  from stripped_keeps[OF c(1,2) _ c(3), of a b] obtain a' b' where
    s: "strip_preambles (strip (a @ core @ b)) = a' @ core @ b'" "suffix a' a" by auto
  from s(2) obtain x where "a = x @ a'" by (auto simp: suffix_def)
  then have "sublist (a' @ [96, 96]) (a @ [96, 96])"
    using sublist_append_leftI[of "a' @ [96, 96]" x] by simp
  with assms(3) have a': "\<not> sublist [96, 96, 96] (a' @ [96, 96])"
    using sublist_order.order_trans by (auto simp: str_in_sublist fence)
  from assms(4) have m96: "\<not> sublist [96, 96, 96] (m @ [96, 96])"
    by (simp add: m_def str_in_sublist fence)
  have "prepare_response (a @ core @ b) =
      (if startswith (lower (strip m)) (py ''json'') then strip (drop 4 (strip m)) else m)"
    unfolding prepare_response_def s(1)
    using strip_code_block_fenced[OF a' m96, of b'] by (simp add: core_def)
  with json_tag_keeps[OF assms(1,2), of post] obtain p q where
    "prepare_response (a @ core @ b) = p @ obj @ q" "123 \<notin> set p"
    unfolding m_def by auto
  then have "clean_json_response (a @ core @ b) = Inr obj"
    using assms(1) by (rule clean_of_prepared)
  then show ?thesis by (simp add: core_def m_def fence)
qed

text \<open>
  Claim C2, as amended. Let \<open>obj\<close> be an object that brace counting accepts and \<open>pre\<close>
  a text without an opening brace. \<open>_clean_json_response\<close> returns exactly \<open>obj\<close>, the
  span from the first opening brace to the brace that brings the depth back to zero,
  whenever the response, once white space, preambles and code fences are removed, is
  \<open>pre\<close>, \<open>obj\<close> and any text after it; in particular on a response with fewer than
  two code fences (its split at the fences has fewer than three parts) that consists
  of \<open>pre\<close> (a preamble, prose), \<open>obj\<close> and any text, and on a response that wraps
  these in its first pair of code fences: the fence that opens the block is the first
  fence of the response, so that the text \<open>a\<close> before it, followed by two backquotes,
  holds no fence, and the fence that closes the block is the first one after it; any
  text \<open>b\<close> may follow.
\<close>

theorem clean_json_response_balanced_span:
  assumes "balanced_object obj" and "123 \<notin> set pre"
  shows "(prepare_response response = pre @ obj @ post \<longrightarrow>
            clean_json_response response = Inr obj) \<and>
         (length (split_sep (py ''```'') (pre @ obj @ post)) < 3 \<longrightarrow>
            clean_json_response (pre @ obj @ post) = Inr obj) \<and>
         (\<not> str_in (py ''```'') (a @ py ''``'') \<and>
          \<not> str_in (py ''```'') ((pre @ obj @ post) @ py ''``'') \<longrightarrow>
            clean_json_response (a @ py ''```'' @ (pre @ obj @ post) @ py ''```'' @ b) = Inr obj)"
proof (intro conjI impI)
  assume "prepare_response response = pre @ obj @ post"
  then show "clean_json_response response = Inr obj"
    using assms(2,1) by (rule clean_of_prepared)
next
  assume "length (split_sep (py ''```'') (pre @ obj @ post)) < 3"
  with assms show "clean_json_response (pre @ obj @ post) = Inr obj"
    by (rule clean_plain)
next
  assume "\<not> str_in (py ''```'') (a @ py ''``'') \<and>
          \<not> str_in (py ''```'') ((pre @ obj @ post) @ py ''``'')"
  with assms show
    "clean_json_response (a @ py ''```'' @ (pre @ obj @ post) @ py ''```'' @ b) = Inr obj"
    using clean_fenced by blast
qed

theorem clean_json_response_balanced_span_witness:
  \<open>balanced_object (py ''{"key": {"a": 1}}'') \<and>
     123 \<notin> set (py ''json `r` '') \<and>
     prepare_response (py ''  JSON: json `r` {"key": {"a": 1}} done.  '') =
       py ''json `r` '' @ py ''{"key": {"a": 1}}'' @ py '' done.'' \<and>
     clean_json_response (py ''  JSON: json `r` {"key": {"a": 1}} done.  '') =
       Inr (py ''{"key": {"a": 1}}'') \<and>
     length (split_sep (py ''```'')
        (py ''json `r` '' @ py ''{"key": {"a": 1}}'' @ py '' done.'')) = 1 \<and>
     clean_json_response (py ''json `r` '' @ py ''{"key": {"a": 1}}'' @ py '' done.'') =
       Inr (py ''{"key": {"a": 1}}'') \<and>
     \<not> str_in (py ''```'') (py ''Here is the `JSON`: '' @ py ''``'') \<and>
     \<not> str_in (py ''```'')
         ((py ''json `r` '' @ py ''{"key": {"a": 1}}'' @ py '' done.'') @ py ''``'') \<and>
     clean_json_response
       (py ''Here is the `JSON`: '' @ py ''```'' @
        (py ''json `r` '' @ py ''{"key": {"a": 1}}'' @ py '' done.'') @ py ''```'' @
        py '' ```more``` I hope this helps.'') =
       Inr (py ''{"key": {"a": 1}}'') \<and>
     123 \<notin> set (py ''Output: ```json '') \<and>
     length (split_sep (py ''```'')
        (py ''Output: ```json '' @ py ''{"key": {"a": 1}}'' @ py '' and so'')) = 2 \<and>
     clean_json_response (py ''Output: ```json '' @ py ''{"key": {"a": 1}}'' @ py '' and so'') =
       Inr (py ''{"key": {"a": 1}}'')\<close>
proof -
  have a: \<open>balanced_object (py ''{"key": {"a": 1}}'')\<close> by code_simp
  have b: "123 \<notin> set (py ''json `r` '')" by code_simp
  have c: \<open>prepare_response (py ''  JSON: json `r` {"key": {"a": 1}} done.  '') =
       py ''json `r` '' @ py ''{"key": {"a": 1}}'' @ py '' done.''\<close>
    by code_simp
  have d: \<open>length (split_sep (py ''```'')
        (py ''json `r` '' @ py ''{"key": {"a": 1}}'' @ py '' done.'')) = 1\<close>
    by code_simp
  have e: "\<not> str_in (py ''```'') (py ''Here is the `JSON`: '' @ py ''``'')" by code_simp
  have f: \<open>\<not> str_in (py ''```'')
         ((py ''json `r` '' @ py ''{"key": {"a": 1}}'' @ py '' done.'') @ py ''``'')\<close>
    by code_simp
  have g: "123 \<notin> set (py ''Output: ```json '')" by code_simp
  have h: \<open>length (split_sep (py ''```'')
        (py ''Output: ```json '' @ py ''{"key": {"a": 1}}'' @ py '' and so'')) = 2\<close>
    by code_simp
  from d have d3: \<open>length (split_sep (py ''```'')
        (py ''json `r` '' @ py ''{"key": {"a": 1}}'' @ py '' done.'')) < 3\<close>
    by simp
  from h have h3: \<open>length (split_sep (py ''```'')
        (py ''Output: ```json '' @ py ''{"key": {"a": 1}}'' @ py '' and so'')) < 3\<close>
    by simp
  from c d3 e f
    clean_json_response_balanced_span[OF a b,
      of \<open>py ''  JSON: json `r` {"key": {"a": 1}} done.  ''\<close> "py '' done.''"
         "py ''Here is the `JSON`: ''" "py '' ```more``` I hope this helps.''"]
  have 1: \<open>clean_json_response (py ''  JSON: json `r` {"key": {"a": 1}} done.  '') =
       Inr (py ''{"key": {"a": 1}}'')\<close>
    and 2: \<open>clean_json_response (py ''json `r` '' @ py ''{"key": {"a": 1}}'' @ py '' done.'') =
       Inr (py ''{"key": {"a": 1}}'')\<close>
    and 3: \<open>clean_json_response
       (py ''Here is the `JSON`: '' @ py ''```'' @
        (py ''json `r` '' @ py ''{"key": {"a": 1}}'' @ py '' done.'') @ py ''```'' @
        py '' ```more``` I hope this helps.'') =
       Inr (py ''{"key": {"a": 1}}'')\<close>
    by blast+
  from h3 clean_json_response_balanced_span[OF a g, of _ "py '' and so''"]
  have 4: \<open>clean_json_response (py ''Output: ```json '' @ py ''{"key": {"a": 1}}'' @ py '' and so'') =
       Inr (py ''{"key": {"a": 1}}'')\<close>
    by blast
  from a b c 1 d 2 e f 3 g h 4 show ?thesis by blast
qed

text \<open>
  The claim as stated fails on a response that has its only object before a pair of
  code fences: the text between the first two fences is all that is searched, and here
  it has no opening brace.
\<close>

theorem clean_json_response_object_before_fences:
  \<open>balanced_object (py ''{"a": 1}'') \<and>
     clean_json_response (py ''{"a": 1} ```x``` tail'') = Inl (ValueError no_object_msg)\<close>
proof -
  have a: \<open>balanced_object (py ''{"a": 1}'')\<close> by code_simp
  have b: \<open>clean_json_response (py ''{"a": 1} ```x``` tail'') = Inl (ValueError no_object_msg)\<close>
    by code_simp
  from a b show ?thesis by (rule conjI)
qed

text \<open>
  Claim C3. If the response (after stripping) has no opening brace, extraction fails
  with "No JSON object found in response"; if the depth counted from the first opening
  brace never returns to zero, it fails with "Malformed JSON: no matching closing
  brace"; whatever it returns is an object that brace counting accepts, found in the
  stripped response at its first opening brace; and on every input it ends in one of
  these three ways.
\<close>

theorem clean_json_response_failures:
  "(123 \<notin> set (prepare_response response) \<longrightarrow>
      clean_json_response response = Inl (ValueError no_object_msg)) \<and>
   (prepare_response response = pre @ rest \<and> 123 \<notin> set pre \<and> never_closed rest \<longrightarrow>
      clean_json_response response = Inl (ValueError malformed_msg)) \<and>
   (clean_json_response response = Inr obj \<longrightarrow>
      balanced_object obj \<and>
      (\<exists>p q. prepare_response response = p @ obj @ q \<and> 123 \<notin> set p)) \<and>
   (clean_json_response response = Inl (ValueError no_object_msg) \<or>
    clean_json_response response = Inl (ValueError malformed_msg) \<or>
    (\<exists>found. clean_json_response response = Inr found \<and> balanced_object found))"
proof -
  have a: "123 \<notin> set (prepare_response response) \<longrightarrow>
      clean_json_response response = Inl (ValueError no_object_msg)"
    by (simp add: clean_json_response_def Let_def find_def find_from_absent)
  have b: "prepare_response response = pre @ rest \<and> 123 \<notin> set pre \<and> never_closed rest \<longrightarrow>
      clean_json_response response = Inl (ValueError malformed_msg)"
    by (auto simp: clean_json_response_def Let_def extract_unclosed)
  have c: "balanced_object found \<and>
      (\<exists>p q. prepare_response response = p @ found @ q \<and> 123 \<notin> set p)"
    if "clean_json_response response = Inr found" for found
    using that extract_sound[of "prepare_response response"]
    by (auto simp: clean_json_response_def Let_def split: option.splits)
  have d: "clean_json_response response = Inl (ValueError no_object_msg) \<or>
    clean_json_response response = Inl (ValueError malformed_msg) \<or>
    (\<exists>found. clean_json_response response = Inr found \<and> balanced_object found)"
  proof (cases "clean_json_response response")
    case (Inl e)
    then show ?thesis
      by (auto simp: clean_json_response_def Let_def split: option.splits)
  next
    case (Inr found)
    with c[OF Inr] show ?thesis by blast
  qed
  from a b c[of obj] d show ?thesis by blast
qed

theorem clean_json_response_failures_witness:
  \<open>123 \<notin> set (prepare_response (py ''This is just text'')) \<and>
     clean_json_response (py ''This is just text'') = Inl (ValueError no_object_msg) \<and>
     prepare_response (py ''Output: x {"a": { 1 }'') = py ''x '' @ py ''{"a": { 1 }'' \<and>
     123 \<notin> set (py ''x '') \<and> never_closed (py ''{"a": { 1 }'') \<and>
     clean_json_response (py ''Output: x {"a": { 1 }'') = Inl (ValueError malformed_msg) \<and>
     clean_json_response (py ''```json'' @ [10] @ py ''{"key": "value"}'' @ [10] @ py ''```'') =
       Inr (py ''{"key": "value"}'') \<and>
     balanced_object (py ''{"key": "value"}'')\<close>
proof -
  have a: "123 \<notin> set (prepare_response (py ''This is just text''))" by code_simp
  have b: \<open>prepare_response (py ''Output: x {"a": { 1 }'') = py ''x '' @ py ''{"a": { 1 }''\<close>
    by code_simp
  have c: "123 \<notin> set (py ''x '')" by code_simp
  have d: \<open>never_closed (py ''{"a": { 1 }'')\<close> by code_simp
  have e: \<open>clean_json_response (py ''```json'' @ [10] @ py ''{"key": "value"}'' @ [10] @ py ''```'') =
       Inr (py ''{"key": "value"}'')\<close>
    by code_simp
  from a clean_json_response_failures[of "py ''This is just text''"]
  have 1: "clean_json_response (py ''This is just text'') = Inl (ValueError no_object_msg)"
    by blast
  from b c d clean_json_response_failures[of _ "py ''x ''" _ _]
  have 2: \<open>clean_json_response (py ''Output: x {"a": { 1 }'') = Inl (ValueError malformed_msg)\<close>
    by blast
  from e clean_json_response_failures[of _ _ _ \<open>py ''{"key": "value"}''\<close>]
  have 3: \<open>balanced_object (py ''{"key": "value"}'')\<close>
    by blast
  from a b c d e 1 2 3 show ?thesis by blast
qed

subsection \<open>Generation with retries\<close>

lemma generate_text_logged:
  assumes "post w (model, prompt, temperature, max_tokens) = (r, w1)"
  shows "generate_text (logged post) model (w, calls0) prompt temperature max_tokens =
           (interpret_response model r,
            (w1, calls0 @ [((model, prompt, temperature, max_tokens), r)]))"
  using assms by (simp add: generate_text_def logged_def)

lemma call_outcome_simp:
  "call_outcome loads ((model, prompt, temperature, max_tokens), r) =
     attempt_outcome loads (interpret_response model r)"
  by (simp add: call_outcome_def)

lemma generate_json_loop_run:
  "nat (max_retries - attempt) = n \<Longrightarrow> attempt < max_retries \<Longrightarrow>
   generate_json_loop (logged post) loads model prompt max_retries attempt temperature (w, calls0)
     = (res, (w', calls)) \<Longrightarrow>
   \<exists>new. calls = calls0 @ new \<and> new \<noteq> [] \<and> int (length new) \<le> max_retries - attempt \<and>
     (\<forall>i<length new. fst (new ! i) =
        (model, json_prompt prompt, ((\<lambda>t. fmul t (1 / 2)) ^^ i) temperature, 3000)) \<and>
     (\<forall>i. Suc i < length new \<longrightarrow> call_outcome loads (new ! i) = DecodeFailed) \<and>
     (case call_outcome loads (last new) of
        Returned parsed \<Rightarrow> res = Inr (Some parsed)
      | DecodeFailed \<Rightarrow> int (length new) = max_retries - attempt \<and> res = Inl (parse_failed max_retries)
      | Raised e \<Rightarrow> res = Inl e)"
proof (induction n arbitrary: attempt temperature w calls0)
  case 0
  then show ?case by simp
next
  case (Suc n)
  obtain r w1 where p: "post w (model, json_prompt prompt, temperature, 3000) = (r, w1)"
    by (cases "post w (model, json_prompt prompt, temperature, 3000)")
  define c :: call where "c = ((model, json_prompt prompt, temperature, 3000), r)"
  have g: "generate_text (logged post) model (w, calls0) (json_prompt prompt) temperature 3000 =
      (interpret_response model r, (w1, calls0 @ [c]))"
    unfolding c_def using p by (simp add: generate_text_def logged_def)
  have co: "call_outcome loads c = attempt_outcome loads (interpret_response model r)"
    unfolding c_def by (rule call_outcome_simp)
  have fc: "fst c = (model, json_prompt prompt, temperature, 3000)"
    by (simp add: c_def)
  note step = Suc.prems(3)[unfolded generate_json_loop.simps[of "logged post" loads model prompt max_retries attempt temperature "(w, calls0)"]]
  show ?case
  proof (cases "attempt_outcome loads (interpret_response model r)")
    case (Returned parsed)
    with step Suc.prems(2) g have "res = Inr (Some parsed)" "calls = calls0 @ [c]"
      by simp_all
    with Returned co fc Suc.prems(2) have
      "calls = calls0 @ [c] \<and> [c] \<noteq> [] \<and> int (length [c]) \<le> max_retries - attempt \<and>
       (\<forall>i<length [c]. fst ([c] ! i) =
          (model, json_prompt prompt, ((\<lambda>t. fmul t (1 / 2)) ^^ i) temperature, 3000)) \<and>
       (\<forall>i. Suc i < length [c] \<longrightarrow> call_outcome loads ([c] ! i) = DecodeFailed) \<and>
       (case call_outcome loads (last [c]) of
          Returned parsed \<Rightarrow> res = Inr (Some parsed)
        | DecodeFailed \<Rightarrow> int (length [c]) = max_retries - attempt \<and> res = Inl (parse_failed max_retries)
        | Raised e \<Rightarrow> res = Inl e)"
      by simp
    then show ?thesis by blast
  next
    case (Raised e)
    with step Suc.prems(2) g have "res = Inl e" "calls = calls0 @ [c]"
      by simp_all
    with Raised co fc Suc.prems(2) have
      "calls = calls0 @ [c] \<and> [c] \<noteq> [] \<and> int (length [c]) \<le> max_retries - attempt \<and>
       (\<forall>i<length [c]. fst ([c] ! i) =
          (model, json_prompt prompt, ((\<lambda>t. fmul t (1 / 2)) ^^ i) temperature, 3000)) \<and>
       (\<forall>i. Suc i < length [c] \<longrightarrow> call_outcome loads ([c] ! i) = DecodeFailed) \<and>
       (case call_outcome loads (last [c]) of
          Returned parsed \<Rightarrow> res = Inr (Some parsed)
        | DecodeFailed \<Rightarrow> int (length [c]) = max_retries - attempt \<and> res = Inl (parse_failed max_retries)
        | Raised e \<Rightarrow> res = Inl e)"
      by simp
    then show ?thesis by blast
  next
    case DecodeFailed
    show ?thesis
    proof (cases "attempt < max_retries - 1")
      case False
      with DecodeFailed step Suc.prems(2) g have "res = Inl (parse_failed max_retries)" "calls = calls0 @ [c]"
        by simp_all
      moreover from False Suc.prems(2) have "max_retries - attempt = 1" by simp
      ultimately have
        "calls = calls0 @ [c] \<and> [c] \<noteq> [] \<and> int (length [c]) \<le> max_retries - attempt \<and>
         (\<forall>i<length [c]. fst ([c] ! i) =
            (model, json_prompt prompt, ((\<lambda>t. fmul t (1 / 2)) ^^ i) temperature, 3000)) \<and>
         (\<forall>i. Suc i < length [c] \<longrightarrow> call_outcome loads ([c] ! i) = DecodeFailed) \<and>
         (case call_outcome loads (last [c]) of
            Returned parsed \<Rightarrow> res = Inr (Some parsed)
          | DecodeFailed \<Rightarrow> int (length [c]) = max_retries - attempt \<and> res = Inl (parse_failed max_retries)
          | Raised e \<Rightarrow> res = Inl e)"
        using DecodeFailed co fc by simp
      then show ?thesis by blast
    next
      case True
      with DecodeFailed step Suc.prems(2) g have rec:
        "generate_json_loop (logged post) loads model prompt max_retries (attempt + 1)
           (fmul temperature (1 / 2)) (w1, calls0 @ [c]) = (res, (w', calls))"
        by simp
      from Suc.prems(1) True have n: "nat (max_retries - (attempt + 1)) = n" by simp
      from True have lt: "attempt + 1 < max_retries" by simp
      from Suc.IH[OF n lt rec] obtain new where new:
        "calls = (calls0 @ [c]) @ new" "new \<noteq> []" "int (length new) \<le> max_retries - (attempt + 1)"
        "\<forall>i<length new. fst (new ! i) =
            (model, json_prompt prompt, ((\<lambda>t. fmul t (1 / 2)) ^^ i) (fmul temperature (1 / 2)), 3000)"
        "\<forall>i. Suc i < length new \<longrightarrow> call_outcome loads (new ! i) = DecodeFailed"
        "case call_outcome loads (last new) of
            Returned parsed \<Rightarrow> res = Inr (Some parsed)
          | DecodeFailed \<Rightarrow> int (length new) = max_retries - (attempt + 1) \<and> res = Inl (parse_failed max_retries)
          | Raised e \<Rightarrow> res = Inl e"
        by blast
      have 1: "calls = calls0 @ (c # new)" using new(1) by simp
      have 2: "int (length (c # new)) \<le> max_retries - attempt" using new(3) by simp
      have 3: "\<forall>i<length (c # new). fst ((c # new) ! i) =
            (model, json_prompt prompt, ((\<lambda>t. fmul t (1 / 2)) ^^ i) temperature, 3000)"
      proof (intro allI impI)
        fix i assume i: "i < length (c # new)"
        show "fst ((c # new) ! i) =
            (model, json_prompt prompt, ((\<lambda>t. fmul t (1 / 2)) ^^ i) temperature, 3000)"
        proof (cases i)
          case 0
          with fc show ?thesis by simp
        next
          case (Suc j)
          with i new(4) show ?thesis
            using funpow_swap1[of "\<lambda>t. fmul t (1 / 2)" j temperature] by simp
        qed
      qed
      have 4: "\<forall>i. Suc i < length (c # new) \<longrightarrow> call_outcome loads ((c # new) ! i) = DecodeFailed"
      proof (intro allI impI)
        fix i assume i: "Suc i < length (c # new)"
        show "call_outcome loads ((c # new) ! i) = DecodeFailed"
        proof (cases i)
          case 0
          with co DecodeFailed show ?thesis by simp
        next
          case (Suc j)
          with i new(5) show ?thesis by simp
        qed
      qed
      have 5: "case call_outcome loads (last (c # new)) of
            Returned parsed \<Rightarrow> res = Inr (Some parsed)
          | DecodeFailed \<Rightarrow> int (length (c # new)) = max_retries - attempt \<and> res = Inl (parse_failed max_retries)
          | Raised e \<Rightarrow> res = Inl e"
        using new(2,6) by (auto split: outcome.splits)
      from 1 2 3 4 5 show ?thesis by blast
    qed
  qed
qed



lemma generate_json_no_attempt:
  "max_retries \<le> 0 \<Longrightarrow>
   generate_json post loads model prompt temperature max_retries w = (Inr None, w)"
  by (simp add: generate_json_def generate_json_loop.simps)

lemma attempt_outcome_raised:
  "attempt_outcome loads (Inl e) = Raised (json_failed (str_of_error e))"
  by (simp add: attempt_outcome_def)

lemma attempt_outcome_decode_failed:
  "attempt_outcome loads generated = DecodeFailed \<Longrightarrow>
   \<exists>response_text cleaned msg. generated = Inr response_text \<and>
      clean_json_response response_text = Inr cleaned \<and> loads cleaned = JSONDecodeError msg"
  by (auto simp: attempt_outcome_def split: sum.splits loads_result.splits)

text \<open>
  Claim C5. If \<open>generate_text\<close> raises on some call, that call is the last one and
  \<open>generate_json\<close> raises with the message of that exception; a further call is made
  only after a response from which an object was extracted and whose decoding raised
  \<open>JSONDecodeError\<close>.
\<close>

theorem generate_json_transport_error:
  assumes "generate_json (logged post) loads model prompt temperature max_retries (w, [])
           = (res, (w', calls))"
  shows "(\<forall>i<length calls. \<forall>e. interpret_response model (snd (calls ! i)) = Inl e \<longrightarrow>
            Suc i = length calls \<and> res = Inl (json_failed (str_of_error e))) \<and>
         (\<forall>i. Suc i < length calls \<longrightarrow>
            (\<exists>response_text cleaned msg.
               interpret_response model (snd (calls ! i)) = Inr response_text \<and>
               clean_json_response response_text = Inr cleaned \<and>
               loads cleaned = JSONDecodeError msg))"
proof (cases "0 < max_retries")
  case False
  with assms generate_json_no_attempt[of max_retries "logged post" loads model prompt temperature "(w, [])"]
  have "calls = []" by simp
  then show ?thesis by simp
next
  case True
  from generate_json_loop_run[OF refl True assms[unfolded generate_json_def]]
  obtain new where new: "calls = [] @ new" "new \<noteq> []"
     "\<forall>i<length new. fst (new ! i) =
        (model, json_prompt prompt, ((\<lambda>t. fmul t (1 / 2)) ^^ i) temperature, 3000)"
     "\<forall>i. Suc i < length new \<longrightarrow> call_outcome loads (new ! i) = DecodeFailed"
     "case call_outcome loads (last new) of
        Returned parsed \<Rightarrow> res = Inr (Some parsed)
      | DecodeFailed \<Rightarrow> int (length new) = max_retries - 0 \<and> res = Inl (parse_failed max_retries)
      | Raised e \<Rightarrow> res = Inl e"
    by blast
  from new(1) have c: "new = calls" by simp
  note new = new(2-5)[unfolded c]
  have oc: "call_outcome loads (calls ! i) =
      attempt_outcome loads (interpret_response model (snd (calls ! i)))" if "i < length calls" for i
  proof -
    from new(2) that have "fst (calls ! i) =
        (model, json_prompt prompt, ((\<lambda>t. fmul t (1 / 2)) ^^ i) temperature, 3000)" by blast
    then show ?thesis by (cases "calls ! i") (simp add: call_outcome_def)
  qed
  have a: "Suc i = length calls \<and> res = Inl (json_failed (str_of_error e))"
    if i: "i < length calls" and e: "interpret_response model (snd (calls ! i)) = Inl e" for i e
  proof -
    from oc[OF i] e have r: "call_outcome loads (calls ! i) = Raised (json_failed (str_of_error e))"
      by (simp add: attempt_outcome_raised)
    have il: "Suc i = length calls"
    proof (rule ccontr)
      assume "Suc i \<noteq> length calls"
      with i have "Suc i < length calls" by simp
      with new(3) r show False by simp
    qed
    from new(1) have "last calls = calls ! i" by (simp add: last_conv_nth il[symmetric])
    with new(4) r have "res = Inl (json_failed (str_of_error e))" by simp
    with il show ?thesis by simp
  qed
  have b: "\<exists>response_text cleaned msg.
               interpret_response model (snd (calls ! i)) = Inr response_text \<and>
               clean_json_response response_text = Inr cleaned \<and>
               loads cleaned = JSONDecodeError msg" if i: "Suc i < length calls" for i
  proof -
    from i have "i < length calls" by simp
    from oc[OF this] new(3) i
    have "attempt_outcome loads (interpret_response model (snd (calls ! i))) = DecodeFailed"
      by simp
    then show ?thesis by (rule attempt_outcome_decode_failed)
  qed
  from a b show ?thesis by blast
qed

lemma retry_run:
  "generate_json (logged canned) loads_braces (py ''llama3.1:8b'') (py ''Parse this CV'')
       (fl (3 / 10)) 2
       ([Inr (Response 200 (Body (Some (py ''{x}'')))),
         Inr (Response 200 (Body (Some (py ''{}''))))], []) =
     (Inr (Some []), ([],
       [((py ''llama3.1:8b'', json_prompt (py ''Parse this CV''), fl (3 / 10), 3000),
          Inr (Response 200 (Body (Some (py ''{x}''))))),
        ((py ''llama3.1:8b'', json_prompt (py ''Parse this CV''), fmul (fl (3 / 10)) (1 / 2), 3000),
          Inr (Response 200 (Body (Some (py ''{}'')))))]))"
  by code_simp

lemma timeout_run:
  "generate_json (logged canned) loads_braces (py ''llama3.1:8b'') (py ''Parse this CV'')
       (fl (3 / 10)) 2
       ([Inl Timeout, Inr (Response 200 (Body (Some (py ''{}''))))], []) =
     (Inl (json_failed timeout_msg), ([Inr (Response 200 (Body (Some (py ''{}''))))],
       [((py ''llama3.1:8b'', json_prompt (py ''Parse this CV''), fl (3 / 10), 3000),
          Inl Timeout)]))"
  by code_simp





theorem generate_json_transport_error_witness:
  "generate_json (logged canned) loads_braces (py ''llama3.1:8b'') (py ''Parse this CV'')
       (fl (3 / 10)) 2
       ([Inl Timeout, Inr (Response 200 (Body (Some (py ''{}''))))], []) =
     (Inl (json_failed timeout_msg), ([Inr (Response 200 (Body (Some (py ''{}''))))],
       [((py ''llama3.1:8b'', json_prompt (py ''Parse this CV''), fl (3 / 10), 3000),
          Inl Timeout)])) \<and>
   interpret_response (py ''llama3.1:8b'') (Inl Timeout) = Inl (Exception timeout_msg) \<and>
   (\<exists>response_text cleaned msg.
      interpret_response (py ''llama3.1:8b'') (Inr (Response 200 (Body (Some (py ''{x}''))))) =
        Inr response_text \<and>
      clean_json_response response_text = Inr cleaned \<and>
      loads_braces cleaned = JSONDecodeError msg)"
proof -
  have i: "interpret_response (py ''llama3.1:8b'') (Inl Timeout) = Inl (Exception timeout_msg)"
    by (simp add: interpret_response_def)
  from generate_json_transport_error[OF timeout_run] i
  have "Inl (json_failed timeout_msg) = (Inl (json_failed (str_of_error (Exception timeout_msg)))
          :: py_error + (str \<times> str) list option)"
    by simp
  from generate_json_transport_error[OF retry_run]
  have "\<exists>response_text cleaned msg.
      interpret_response (py ''llama3.1:8b'') (Inr (Response 200 (Body (Some (py ''{x}''))))) =
        Inr response_text \<and>
      clean_json_response response_text = Inr cleaned \<and>
      loads_braces cleaned = JSONDecodeError msg"
    by simp
  with timeout_run i show ?thesis by blast
qed

subsection \<open>CV parsing\<close>

lemma truncate_take:
  "(if 12000 < length cv_text then take 12000 cv_text else cv_text) = take 12000 cv_text"
  by simp

lemma parse_text_guarded:
  assumes "cv_text \<noteq> []" and "50 \<le> length (strip cv_text)"
  shows "parse_text post loads build model cv_text w =
     (case generate_json post loads model (cv_parse_prompt (take 12000 cv_text)) (fl (2 / 10)) 2 w of
        (Inl e, w') \<Rightarrow> (Inr (fallback_profile (take 12000 cv_text) e), w')
      | (Inr None, w') \<Rightarrow> (Inr (fallback_profile (take 12000 cv_text) none_item_assignment), w')
      | (Inr (Some cv_data), w') \<Rightarrow>
          (case build cv_data (take 12000 cv_text) of
             Inl e \<Rightarrow> (Inr (fallback_profile (take 12000 cv_text) e), w')
           | Inr profile \<Rightarrow> (Inr profile, w')))"
  using assms unfolding parse_text_def Let_def truncate_take by simp

lemma parse_text_short:
  "cv_text = [] \<or> length (strip cv_text) < 50 \<Longrightarrow>
   parse_text post loads build model cv_text w = (Inl too_short, w)"
  by (simp add: parse_text_def)

text \<open>
  Claim C7, as amended. For a CV text that is not empty and has at least 50 characters
  once stripped, \<open>parse_text\<close> returns a profile and never raises; whenever
  \<open>generate_json\<close> raises, or validation of its result raises, the profile is the minimal
  one, whose \<open>raw_text\<close> is the input cut to 12000 characters and whose \<open>summary\<close> is
  "CV parsing failed: (the message of the exception). Using raw text.".
\<close>

theorem parse_text_never_raises_when_long_enough:
  assumes "cv_text \<noteq> []" and "50 \<le> length (strip cv_text)"
  shows "\<exists>profile w'.
     parse_text post loads build model cv_text w = (Inr profile, w') \<and>
     (\<forall>e. fst (generate_json post loads model (cv_parse_prompt (take 12000 cv_text))
                 (fl (2 / 10)) 2 w) = Inl e \<or>
           (\<exists>cv_data. fst (generate_json post loads model (cv_parse_prompt (take 12000 cv_text))
                             (fl (2 / 10)) 2 w) = Inr (Some cv_data) \<and>
                       build cv_data (take 12000 cv_text) = Inl e)
           \<longrightarrow> profile = fallback_profile (take 12000 cv_text) e \<and>
               cv_raw_text profile = take 12000 cv_text \<and>
               cv_summary profile =
                 Some (py ''CV parsing failed: '' @ str_of_error e @ py ''. Using raw text.''))"
proof -
  obtain r w1 where g: "generate_json post loads model (cv_parse_prompt (take 12000 cv_text))
      (fl (2 / 10)) 2 w = (r, w1)"
    by (cases "generate_json post loads model (cv_parse_prompt (take 12000 cv_text)) (fl (2 / 10)) 2 w")
  note p = parse_text_guarded[OF assms, of post loads build model w, unfolded g]
  show ?thesis
  proof (cases r)
    case (Inl e)
    with p show ?thesis unfolding g by (simp add: fallback_profile_def)
  next
    case (Inr v)
    show ?thesis
    proof (cases v)
      case None
      with Inr p show ?thesis unfolding g by simp
    next
      case (Some cv_data)
      with Inr p show ?thesis unfolding g
        by (cases "build cv_data (take 12000 cv_text)") (simp_all add: fallback_profile_def)
    qed
  qed
qed

lemma sample_cv_long: "sample_cv \<noteq> []" "50 \<le> length (strip sample_cv)"
  by code_simp+

lemma refused_run:
  "generate_json canned loads_braces model prompt temperature 2 [] =
     (Inl (json_failed (py ''LLM generation failed: connection refused'')), [])"
  by (simp add: generate_json_def generate_json_loop.simps generate_text_def
        interpret_response_def attempt_outcome_def generation_failed_def py_def)

theorem parse_text_never_raises_when_long_enough_witness:
  "sample_cv \<noteq> [] \<and> 50 \<le> length (strip sample_cv) \<and>
   parse_text canned loads_braces build_from_entries (py ''llama3.1:8b'') sample_cv [] =
     (Inr (fallback_profile (take 12000 sample_cv)
        (json_failed (py ''LLM generation failed: connection refused''))), [])"
proof -
  from parse_text_never_raises_when_long_enough[OF sample_cv_long,
      of canned loads_braces build_from_entries "py ''llama3.1:8b''" "[]"]
  obtain profile w' where p:
    "parse_text canned loads_braces build_from_entries (py ''llama3.1:8b'') sample_cv [] =
       (Inr profile, w')"
    "profile = fallback_profile (take 12000 sample_cv)
        (json_failed (py ''LLM generation failed: connection refused''))"
    unfolding refused_run by auto
  from parse_text_guarded[OF sample_cv_long, of canned loads_braces build_from_entries
      "py ''llama3.1:8b''" "[]"] p(1)
  have "w' = []" unfolding refused_run by simp
  with p sample_cv_long show ?thesis by simp
qed

text \<open>
  The claim as stated fails on a short text: \<open>parse_text\<close> raises \<open>ValueError\<close> before
  it calls the model.
\<close>

theorem parse_text_raises_on_short_text:
  "parse_text canned loads_braces build_from_entries (py ''llama3.1:8b'') (py ''John Doe'') [] =
     (Inl (ValueError (py ''CV text is too short or empty'')), [])"
proof -
  have "length (strip (py ''John Doe'')) < 50" by code_simp
  then show ?thesis
    by (simp add: parse_text_short too_short_def)
qed

end
